theory Spec2Isabelle
  imports Complex_Main "HOL-Library.Sublist"
begin

section \<open>Python strings\<close>

text \<open>
  A Python \<open>str\<close> is a sequence of Unicode code points. It is modelled as a list of
  natural numbers, one per code point, so that \<open>length\<close> counts what Python's \<open>len\<close>
  counts and the messages of the service, which are written in Chinese, are ordinary
  values. \<open>ustr\<close> turns an ASCII literal into such a list.
\<close>

type_synonym pystr = "nat list"

definition ustr :: "string \<Rightarrow> pystr" where
  "ustr s = map of_char s"

definition TAB :: nat where "TAB = 9"
definition LF :: nat where "LF = 10"
definition CR :: nat where "CR = 13"
definition SPACE :: nat where "SPACE = 32"
definition DQUOTE :: nat where "DQUOTE = 34"
definition COMMA :: nat where "COMMA = 44"
definition DOT :: nat where "DOT = 46"
definition SLASH :: nat where "SLASH = 47"

text \<open>
  \<open>str.isspace\<close> of one code point, which is also the class \<open>\s\<close> of \<open>re\<close> on
  \<open>str\<close> patterns: the code points of bidirectional type WS, B or S and of category Zs.
\<close>

definition isspace :: "nat \<Rightarrow> bool" where
  "isspace c \<longleftrightarrow>
     (9 \<le> c \<and> c \<le> 13) \<or> (28 \<le> c \<and> c \<le> 32) \<or> c = 133 \<or> c = 160 \<or> c = 5760 \<or>
     (8192 \<le> c \<and> c \<le> 8202) \<or> c = 8232 \<or> c = 8233 \<or> c = 8239 \<or> c = 8287 \<or>
     c = 12288"

text \<open>\<open>s.strip()\<close>: whitespace removed at both ends.\<close>

definition py_strip :: "pystr \<Rightarrow> pystr" where
  "py_strip s = rev (dropWhile isspace (rev (dropWhile isspace s)))"

text \<open>\<open>sep.join(xs)\<close>.\<close>

fun py_join :: "pystr \<Rightarrow> pystr list \<Rightarrow> pystr" where
  "py_join sep [] = []"
| "py_join sep [x] = x"
| "py_join sep (x # y # ys) = x @ sep @ py_join sep (y # ys)"

text \<open>
  \<open>s.split(sep)\<close> for a non-empty \<open>sep\<close>: the pieces between the leftmost,
  non-overlapping occurrences of \<open>sep\<close>. \<open>cur\<close> is the piece being read.
\<close>

function split_from :: "pystr \<Rightarrow> pystr \<Rightarrow> pystr \<Rightarrow> pystr list" where
  "split_from sep cur s =
     (if s = [] then [cur]
      else if sep \<noteq> [] \<and> prefix sep s then cur # split_from sep [] (drop (length sep) s)
      else split_from sep (cur @ [hd s]) (tl s))"
  by pat_completeness auto
termination
  by (relation "measure (\<lambda>(sep, cur, s). length s)") auto

declare split_from.simps [simp del]

text \<open>Python's exceptions, as far as the service tells them apart.\<close>

datatype exn =
  HTTPException (status_code: nat) (detail: pystr)
| ValueError pystr
| ImportError pystr
| OtherError pystr

text \<open>\<open>s.split(sep)\<close>; an empty separator raises \<open>ValueError\<close>.\<close>

definition py_split :: "pystr \<Rightarrow> pystr \<Rightarrow> exn + pystr list" where
  "py_split s sep =
     (if sep = [] then Inl (ValueError (ustr ''empty separator''))
      else Inr (split_from sep [] s))"

section \<open>File validator\<close>

text \<open>
  What the validator takes from the Python runtime: \<open>str.lower\<close>, and the order in
  which the set \<open>ALLOWED_EXTENSIONS\<close> is iterated by \<open>', '.join\<close> (a set has no
  order of its own; string hashing decides it per process).
\<close>

record runtime =
  str_lower :: "pystr \<Rightarrow> pystr"
  set_iter :: "pystr list"

definition ALLOWED_IMAGE_EXTENSIONS :: "pystr set" where
  "ALLOWED_IMAGE_EXTENSIONS =
     {ustr ''.png'', ustr ''.jpg'', ustr ''.jpeg'', ustr ''.bmp'', ustr ''.gif'',
      ustr ''.webp'', ustr ''.tiff'', ustr ''.tif''}"

definition ALLOWED_PDF_EXTENSIONS :: "pystr set" where
  "ALLOWED_PDF_EXTENSIONS = {ustr ''.pdf''}"

definition ALLOWED_EXTENSIONS :: "pystr set" where
  "ALLOWED_EXTENSIONS = ALLOWED_IMAGE_EXTENSIONS \<union> ALLOWED_PDF_EXTENSIONS"

text \<open>
  \<open>Path(filename).name\<close> on a POSIX path: the last component, where empty components
  and \<open>.\<close> components do not count. \<open>Path(filename).suffix\<close>: the name from its last
  dot on, when that dot is neither the first nor the last character of the name.
\<close>

definition path_name :: "pystr \<Rightarrow> pystr" where
  "path_name p =
     (case filter (\<lambda>c. c \<noteq> [] \<and> c \<noteq> [DOT]) (split_from [SLASH] [] p) of
        [] \<Rightarrow> []
      | cs \<Rightarrow> last cs)"

text \<open>\<open>name.rfind('.')\<close>, with \<open>None\<close> for Python's \<open>-1\<close>.\<close>

definition rfind_dot :: "pystr \<Rightarrow> nat option" where
  "rfind_dot name =
     (if DOT \<in> set name then Some (length name - 1 - length (takeWhile (\<lambda>c. c \<noteq> DOT) (rev name)))
      else None)"

definition path_suffix :: "pystr \<Rightarrow> pystr" where
  "path_suffix p =
     (let name = path_name p in
      case rfind_dot name of
        None \<Rightarrow> []
      | Some i \<Rightarrow> if 0 < i \<and> i + 1 < length name then drop i name else [])"

text \<open>The two messages of the validator.\<close>

definition msg_no_filename :: pystr where
  "msg_no_filename = [26410, 25552, 20379, 27284, 26696, 21517, 31281]"

definition msg_unsupported :: "'a runtime_scheme \<Rightarrow> pystr \<Rightarrow> pystr" where
  "msg_unsupported rt ext =
     [19981, 25903, 25588, 30340, 27284, 26696, 26684, 24335, 58, 32] @ ext @
     [12290, 25903, 25588, 26684, 24335, 58, 32] @ py_join (ustr '', '') (set_iter rt)"

definition validate_file :: "'a runtime_scheme \<Rightarrow> pystr \<Rightarrow> bool \<times> pystr" where
  "validate_file rt filename =
     (if filename = [] then (False, msg_no_filename)
      else
        let ext = str_lower rt (path_suffix filename) in
        if ext \<notin> ALLOWED_EXTENSIONS then (False, msg_unsupported rt ext)
        else (True, ext))"

text \<open>
  An instance of the runtime for evaluation: \<open>str.lower\<close> on the code points below
  256 (the ASCII letters and the Latin-1 capitals), and the extensions in the order
  of the source text.
\<close>

definition lower_cp :: "nat \<Rightarrow> nat" where
  "lower_cp c =
     (if (65 \<le> c \<and> c \<le> 90) \<or> (192 \<le> c \<and> c \<le> 222 \<and> c \<noteq> 215) then c + 32 else c)"

definition rt0 :: runtime where
  "rt0 = \<lparr>str_lower = map lower_cp,
          set_iter = [ustr ''.png'', ustr ''.jpg'', ustr ''.jpeg'', ustr ''.bmp'', ustr ''.gif'',
                      ustr ''.webp'', ustr ''.tiff'', ustr ''.tif'', ustr ''.pdf'']\<rparr>"

section \<open>Table reconstruction heuristic\<close>

text \<open>A recognition item: the dictionary with the keys \<open>text\<close>, \<open>confidence\<close>,
  \<open>bbox\<close> and, on the pages of a rasterised PDF, \<open>page\<close>
  (\<open>text\<close> is written \<open>item_text\<close>).\<close>

record ocr_item =
  item_text :: pystr
  confidence :: real
  bbox :: "real list list"
  page :: "nat option"

text \<open>\<open>line.count(c)\<close> for a single character \<open>c\<close>.\<close>

definition count_char :: "nat \<Rightarrow> pystr \<Rightarrow> nat" where
  "count_char c line = length (filter (\<lambda>x. x = c) line)"

text \<open>
  \<open>len(re.findall(r'\s{2,}', line))\<close>: the number of maximal runs of two or more
  whitespace characters. The pattern is greedy, so a match always takes the whole run.
\<close>

function count_ws_runs :: "pystr \<Rightarrow> nat" where
  "count_ws_runs s =
     (if s = [] then 0
      else if 2 \<le> length (takeWhile isspace s) then 1 + count_ws_runs (dropWhile isspace s)
      else count_ws_runs (tl s))"
  by pat_completeness auto
termination
proof (relation "measure length")
  fix s :: pystr
  assume "s \<noteq> []" and "2 \<le> length (takeWhile isspace s)"
  then have "length (takeWhile isspace s) + length (dropWhile isspace s) = length s"
    by (metis length_append takeWhile_dropWhile_id)
  with \<open>2 \<le> length (takeWhile isspace s)\<close>
  show "(dropWhile isspace s, s) \<in> measure length" by simp
qed auto

declare count_ws_runs.simps [simp del]

text \<open>
  \<open>re.split(r'\s{2,}', s)\<close>: the pieces between those runs. \<open>cur\<close> is the piece
  being read.
\<close>

function re_split_from :: "pystr \<Rightarrow> pystr \<Rightarrow> pystr list" where
  "re_split_from cur s =
     (if s = [] then [cur]
      else if 2 \<le> length (takeWhile isspace s) then cur # re_split_from [] (dropWhile isspace s)
      else re_split_from (cur @ [hd s]) (tl s))"
  by pat_completeness auto
termination
proof (relation "measure (\<lambda>(cur, s). length s)")
  fix cur s :: pystr
  assume "s \<noteq> []" and "2 \<le> length (takeWhile isspace s)"
  then have "length (takeWhile isspace s) + length (dropWhile isspace s) = length s"
    by (metis length_append takeWhile_dropWhile_id)
  with \<open>2 \<le> length (takeWhile isspace s)\<close>
  show "(([], dropWhile isspace s), (cur, s)) \<in> measure (\<lambda>(cur, s). length s)" by simp
qed auto

declare re_split_from.simps [simp del]

definition re_split_ws :: "pystr \<Rightarrow> pystr list" where
  "re_split_ws s = re_split_from [] s"

text \<open>
  The detection of the delimiter (the branch \<open>delimiter == "auto"\<close>). The comparisons
  of a count with \<open>len(lines) * 0.5\<close> are comparisons of integers with an exactly
  representable float, hence exact; they are written without the division. The third
  comparison, with \<open>len(lines) * 0.3\<close>, selects between two branches that assign the
  same value, and is written with the exact ratio.
\<close>

definition detect_delimiter :: "pystr list \<Rightarrow> pystr" where
  "detect_delimiter lines =
     (let tab_count = sum_list (map (count_char TAB) lines);
          comma_count = sum_list (map (count_char COMMA) lines);
          space_count = sum_list (map count_ws_runs lines)
      in if length lines < 2 * tab_count then [TAB]
         else if length lines < 2 * comma_count then [COMMA]
         else if 3 * length lines < 10 * space_count then ustr ''space''
         else ustr ''space'')"

text \<open>The split of one line on the delimiter (the \<open>if\<close> chain in the loop).\<close>

definition split_line :: "pystr \<Rightarrow> pystr \<Rightarrow> exn + pystr list" where
  "split_line delimiter line =
     (if delimiter = ustr ''space'' then Inr (re_split_ws (py_strip line))
      else if delimiter = ustr ''tab'' then py_split line [TAB]
      else if delimiter = ustr ''comma'' then py_split line [COMMA]
      else py_split line delimiter)"

text \<open>\<open>[c.strip() for c in cells if c.strip()]\<close>.\<close>

definition clean_cells :: "pystr list \<Rightarrow> pystr list" where
  "clean_cells cells = map py_strip (filter (\<lambda>c. py_strip c \<noteq> []) cells)"

text \<open>
  The loop over the lines, with its two variables \<open>table_data\<close> and \<open>max_cols\<close>. An
  exception of \<open>split\<close> leaves the loop.
\<close>

fun parse_rows :: "pystr \<Rightarrow> pystr list \<Rightarrow> pystr list list \<times> nat \<Rightarrow> exn + pystr list list \<times> nat" where
  "parse_rows delimiter [] acc = Inr acc"
| "parse_rows delimiter (line # rest) (table_data, max_cols) =
     (case split_line delimiter line of
        Inl e \<Rightarrow> Inl e
      | Inr cells0 \<Rightarrow>
          let cells = clean_cells cells0 in
          if cells \<noteq> [] then
            parse_rows delimiter rest (table_data @ [cells], max max_cols (length cells))
          else parse_rows delimiter rest (table_data, max_cols))"

text \<open>The padding loop: \<open>while len(row) < max_cols: row.append("")\<close>.\<close>

definition pad_row :: "nat \<Rightarrow> pystr list \<Rightarrow> pystr list" where
  "pad_row max_cols row = row @ replicate (max_cols - length row) []"

definition pad_rows :: "nat \<Rightarrow> pystr list list \<Rightarrow> pystr list list" where
  "pad_rows max_cols table_data = map (pad_row max_cols) table_data"

text \<open>
  \<open>csv.writer(...).writerows(table_data)\<close> in the default dialect: delimiter comma,
  quote character \<open>"\<close>, doubled inside a quoted field, minimal quoting (a field is
  quoted when it holds the delimiter, the quote character, or a character of the line
  terminator), line terminator CR LF. A row that is one empty field is written as an
  empty quoted field.
\<close>

definition csv_special :: "nat \<Rightarrow> bool" where
  "csv_special c \<longleftrightarrow> c = COMMA \<or> c = DQUOTE \<or> c = CR \<or> c = LF"

definition csv_escape :: "pystr \<Rightarrow> pystr" where
  "csv_escape field = concat (map (\<lambda>c. if c = DQUOTE then [DQUOTE, DQUOTE] else [c]) field)"

definition csv_field :: "pystr \<Rightarrow> pystr" where
  "csv_field field =
     (if \<exists>c \<in> set field. csv_special c then [DQUOTE] @ csv_escape field @ [DQUOTE]
      else field)"

definition csv_row :: "pystr list \<Rightarrow> pystr" where
  "csv_row row =
     (if row = [[]] then [DQUOTE, DQUOTE] else py_join [COMMA] (map csv_field row)) @ [CR, LF]"

definition csv_writerows :: "pystr list list \<Rightarrow> pystr" where
  "csv_writerows rows = concat (map csv_row rows)"

text \<open>The Markdown table: header, separator, data rows, joined by line feeds.\<close>

definition md_row :: "pystr list \<Rightarrow> pystr" where
  "md_row row = ustr ''| '' @ py_join (ustr '' | '') row @ ustr '' |''"

definition md_lines :: "pystr list list \<Rightarrow> nat \<Rightarrow> pystr list" where
  "md_lines table_data max_cols =
     (case table_data of
        [] \<Rightarrow> []
      | header # rows \<Rightarrow>
          md_row header # md_row (replicate max_cols (ustr ''---'')) # map md_row rows)"

definition md_table :: "pystr list list \<Rightarrow> nat \<Rightarrow> pystr" where
  "md_table table_data max_cols = py_join [LF] (md_lines table_data max_cols)"

text \<open>The lines taken from the result set: the texts that are not empty.\<close>

definition collect_lines :: "ocr_item list \<Rightarrow> pystr list" where
  "collect_lines ocr_results = map item_text (filter (\<lambda>r. item_text r \<noteq> []) ocr_results)"

definition resolve_delimiter :: "pystr \<Rightarrow> pystr list \<Rightarrow> pystr" where
  "resolve_delimiter delimiter lines =
     (if delimiter = ustr ''auto'' then detect_delimiter lines else delimiter)"

definition convert_to_table ::
  "ocr_item list \<Rightarrow> pystr \<Rightarrow> exn + pystr \<times> pystr \<times> nat \<times> nat" where
  "convert_to_table ocr_results delimiter =
     (if ocr_results = [] then Inr ([], [], 0, 0)
      else
        let lines = collect_lines ocr_results in
        if lines = [] then Inr ([], [], 0, 0)
        else
          case parse_rows (resolve_delimiter delimiter lines) lines ([], 0) of
            Inl e \<Rightarrow> Inl e
          | Inr (table_data, max_cols) \<Rightarrow>
              if table_data = [] then Inr ([], [], 0, 0)
              else
                let padded = pad_rows max_cols table_data in
                Inr (csv_writerows padded, md_table padded max_cols,
                     length padded, max_cols))"

text \<open>
  The grid that \<open>convert_to_table\<close> has built when its loop over the lines ends:
  the rows before padding, and \<open>max_cols\<close>. It is the value of the local variables
  \<open>table_data\<close> and \<open>max_cols\<close> there, which the function itself does not return.
\<close>

definition table_grid :: "ocr_item list \<Rightarrow> pystr \<Rightarrow> exn + pystr list list \<times> nat" where
  "table_grid ocr_results delimiter =
     (let lines = collect_lines ocr_results in
      if lines = [] then Inr ([], 0)
      else parse_rows (resolve_delimiter delimiter lines) lines ([], 0))"

text \<open>The cells that one line contributes; none when the split raises.\<close>

definition line_cells :: "pystr \<Rightarrow> pystr \<Rightarrow> pystr list" where
  "line_cells delimiter line =
     (case split_line delimiter line of Inl e \<Rightarrow> [] | Inr cells \<Rightarrow> clean_cells cells)"

text \<open>Sample inputs for evaluation: an item that holds a line, and the three lines
  \<open>Name/Age/City\<close>, \<open>Alice/30/NYC\<close>, \<open>Bob/25/LA\<close> with tabs between the cells.\<close>

definition item :: "pystr \<Rightarrow> ocr_item" where
  "item t = \<lparr>item_text = t, confidence = 1, bbox = [], page = None\<rparr>"

definition scenario_lines :: "pystr list" where
  "scenario_lines =
     [ustr ''Name'' @ [TAB] @ ustr ''Age'' @ [TAB] @ ustr ''City'',
      ustr ''Alice'' @ [TAB] @ ustr ''30'' @ [TAB] @ ustr ''NYC'',
      ustr ''Bob'' @ [TAB] @ ustr ''25'' @ [TAB] @ ustr ''LA'']"

text \<open>
  Reading a CSV text back. The program only writes CSV; the reader is the one of the
  round-trip property, which parses by the standard rules (RFC 4180): records end
  with CR LF (the last one may lack it), fields are separated by commas, a field in
  double quotes may hold commas, CR, LF and doubled double quotes, and a bare field
  holds none of them. \<open>None\<close> is a text that these rules reject. The state is where
  the reader is in a field; \<open>fld\<close> is the field and \<open>row\<close> the record read so far.
\<close>

datatype csv_state = FieldStart | Unquoted | Quoted | QuoteSeen | AfterCR

fun csv_parse_from :: "csv_state \<Rightarrow> pystr \<Rightarrow> pystr list \<Rightarrow> pystr \<Rightarrow> pystr list list option" where
  "csv_parse_from st fld row [] =
     (case st of Quoted \<Rightarrow> None | AfterCR \<Rightarrow> None | _ \<Rightarrow> Some [row @ [fld]])"
| "csv_parse_from FieldStart fld row (c # cs) =
     (if c = DQUOTE then csv_parse_from Quoted [] row cs
      else if c = COMMA then csv_parse_from FieldStart [] (row @ [[]]) cs
      else if c = CR then csv_parse_from AfterCR [] (row @ [[]]) cs
      else if c = LF then None
      else csv_parse_from Unquoted [c] row cs)"
| "csv_parse_from Unquoted fld row (c # cs) =
     (if c = COMMA then csv_parse_from FieldStart [] (row @ [fld]) cs
      else if c = CR then csv_parse_from AfterCR [] (row @ [fld]) cs
      else if c = LF \<or> c = DQUOTE then None
      else csv_parse_from Unquoted (fld @ [c]) row cs)"
| "csv_parse_from Quoted fld row (c # cs) =
     (if c = DQUOTE then csv_parse_from QuoteSeen fld row cs
      else csv_parse_from Quoted (fld @ [c]) row cs)"
| "csv_parse_from QuoteSeen fld row (c # cs) =
     (if c = DQUOTE then csv_parse_from Quoted (fld @ [DQUOTE]) row cs
      else if c = COMMA then csv_parse_from FieldStart [] (row @ [fld]) cs
      else if c = CR then csv_parse_from AfterCR [] (row @ [fld]) cs
      else None)"
| "csv_parse_from AfterCR fld row (c # cs) =
     (if c = LF then
        (if cs = [] then Some [row]
         else map_option ((#) row) (csv_parse_from FieldStart [] [] cs))
      else None)"

definition csv_parse :: "pystr \<Rightarrow> pystr list list option" where
  "csv_parse s = (if s = [] then Some [] else csv_parse_from FieldStart [] [] s)"

text \<open>Lines whose cells need quoting: a comma and double quotes inside cells, and a
  last line with one cell.\<close>

definition quoted_lines :: "pystr list" where
  "quoted_lines =
     [ustr ''Name'' @ TAB # ustr ''Note'',
      ustr ''Bob, Jr.'' @ TAB # ustr ''say '' @ DQUOTE # ustr ''hi'' @ [DQUOTE],
      ustr ''solo'']"

definition quoted_grid :: "pystr list list" where
  "quoted_grid =
     [[ustr ''Name'', ustr ''Note''],
      [ustr ''Bob, Jr.'', ustr ''say '' @ DQUOTE # ustr ''hi'' @ [DQUOTE]],
      [ustr ''solo'']]"

text \<open>
  The conversion of a grid that is already built: the part of \<open>convert_to_table\<close>
  from its rows on. \<open>grid_width\<close> is the \<open>max_cols\<close> that the loop computes for
  the rows (\<open>max_cols = max(max_cols, len(cells))\<close>, from 0); then the rows are
  padded to it and the Markdown table is made.
\<close>

definition grid_width :: "pystr list list \<Rightarrow> nat" where
  "grid_width rows = foldl max 0 (map length rows)"

definition grid_to_markdown :: "pystr list list \<Rightarrow> pystr" where
  "grid_to_markdown rows = md_table (pad_rows (grid_width rows) rows) (grid_width rows)"

section \<open>Image OCR adapter\<close>

text \<open>
  One element of what \<open>ocr.predict\<close> returns, reduced to what the adapter reads from
  it. \<open>RecTexts\<close>: the key or attribute \<open>rec_texts\<close> with, when present,
  \<open>rec_scores\<close> and \<open>dt_polys\<close> (the branches 1, 3 and 5). \<open>SingleText\<close>: a
  \<open>text\<close> that is one string, with \<open>score\<close> and \<open>box\<close> when present (the
  branches 2 and 3). \<open>TextList\<close>: an attribute \<open>text\<close> that is not a string
  (branch 2). \<open>NoTexts\<close>: nothing that the adapter finds.
\<close>

datatype ocr_res =
  RecTexts "pystr list" "real list option" "real list list list option"
| SingleText pystr "real option" "real list list option"
| TextList "pystr list" "real option" "real list list option"
| NoTexts

text \<open>The arrays \<open>texts\<close>, \<open>scores\<close> and \<open>boxes\<close> after the branches; \<open>None\<close>
  when \<open>texts\<close> stays \<open>None\<close>.\<close>

fun extract_arrays :: "ocr_res \<Rightarrow> (pystr list \<times> real list \<times> real list list list) option" where
  "extract_arrays (RecTexts texts scores boxes) =
     Some (texts,
           (case scores of None \<Rightarrow> replicate (length texts) 1 | Some s \<Rightarrow> s),
           (case boxes of None \<Rightarrow> replicate (length texts) [] | Some b \<Rightarrow> b))"
| "extract_arrays (SingleText t score box) =
     Some ([t], [case score of None \<Rightarrow> 1 | Some s \<Rightarrow> s], [case box of None \<Rightarrow> [] | Some b \<Rightarrow> b])"
| "extract_arrays (TextList texts score box) =
     Some (texts, [case score of None \<Rightarrow> 1 | Some s \<Rightarrow> s], [case box of None \<Rightarrow> [] | Some b \<Rightarrow> b])"
| "extract_arrays NoTexts = None"

text \<open>
  The body of the loop \<open>for i, text in enumerate(texts)\<close> for a text that is
  not empty, and the loop itself from index \<open>i\<close> on. A score is a
  float, read here as a real number: the adapter only tests it for zero
  (\<open>float(score) if score else 1.0\<close>) and passes it on. A box is a list of points,
  which \<open>tolist\<close> and \<open>list\<close> leave as it is.
\<close>

definition make_item :: "nat \<Rightarrow> pystr \<Rightarrow> real list \<Rightarrow> real list list list \<Rightarrow> ocr_item" where
  "make_item i t scores boxes =
     (let score = (if i < length scores then scores ! i else 1);
          bbox = (if i < length boxes then boxes ! i else [])
      in \<lparr>item_text = t,
          confidence = (if score \<noteq> 0 then score else 1),
          bbox = (if bbox \<noteq> [] then bbox else []),
          page = None\<rparr>)"

fun collect_from :: "nat \<Rightarrow> pystr list \<Rightarrow> real list \<Rightarrow> real list list list \<Rightarrow> ocr_item list" where
  "collect_from i [] scores boxes = []"
| "collect_from i (t # texts) scores boxes =
     (if t \<noteq> [] then [make_item i t scores boxes] else []) @
     collect_from (Suc i) texts scores boxes"

definition collect_items :: "pystr list \<Rightarrow> real list \<Rightarrow> real list list list \<Rightarrow> ocr_item list" where
  "collect_items texts scores boxes =
     (if texts \<noteq> [] then collect_from 0 texts scores boxes else [])"

definition items_of_res :: "ocr_res \<Rightarrow> ocr_item list" where
  "items_of_res res =
     (case extract_arrays res of
        None \<Rightarrow> []
      | Some (texts, scores, boxes) \<Rightarrow> collect_items texts scores boxes)"

section \<open>The service and its environment\<close>

text \<open>
  The state that a request can change: the files that exist, each with its content;
  how many times an engine has been run; how many unique ids and temporary names
  have been drawn.
\<close>

record world =
  files :: "pystr \<rightharpoonup> pystr"
  engine_runs :: nat
  uuid_count :: nat
  tmp_count :: nat

text \<open>
  What the service takes from outside. \<open>ocr_predict\<close> is \<open>get_ocr_engine().predict\<close>
  on the content found at the path (\<open>None\<close>: no such file), an exception of the
  engine or of its initialisation included. \<open>structure_predict\<close> is the
  PP-StructureV3 engine, \<open>None\<close> when it is not available; each element it returns
  has its \<open>text_contents\<close> or none. \<open>pdf_to_images\<close> is
  \<open>pdf2image.convert_from_path\<close>, \<open>None\<close> when the module cannot be imported.
  \<open>disk_write\<close> says how writing the upload to a path ends: written, or
  failed with an exception and, when the file was already created, what it holds.
  \<open>exc_str\<close> is
  \<open>str(e)\<close> of an \<open>HTTPException\<close>.
\<close>

datatype write_outcome = Written | WriteFailed exn "pystr option"

record env = runtime +
  upload_dir :: pystr
  uuid4 :: "nat \<Rightarrow> pystr"
  tmp_name :: "nat \<Rightarrow> pystr"
  disk_write :: "pystr \<Rightarrow> write_outcome"
  ocr_predict :: "pystr option \<Rightarrow> exn + ocr_res list"
  structure_predict :: "(pystr option \<Rightarrow> exn + pystr list option list) option"
  pdf_to_images :: "(pystr option \<Rightarrow> exn + pystr list) option"
  exc_str :: "nat \<Rightarrow> pystr \<Rightarrow> pystr"
  elapsed :: real
  now_iso :: pystr

text \<open>An uploaded file: its name, and what \<open>await file.read()\<close> gives.\<close>

record upload =
  filename :: pystr
  read_result :: "exn + pystr"

text \<open>\<open>str(e)\<close>.\<close>

fun str_exn :: "'a env_scheme \<Rightarrow> exn \<Rightarrow> pystr" where
  "str_exn e (HTTPException code d) = exc_str e code d"
| "str_exn e (ValueError m) = m"
| "str_exn e (ImportError m) = m"
| "str_exn e (OtherError m) = m"

definition process_image_ocr :: "'a env_scheme \<Rightarrow> world \<Rightarrow> pystr \<Rightarrow> world \<times> (exn + ocr_item list)" where
  "process_image_ocr e w image_path =
     (let w1 = w\<lparr>engine_runs := Suc (engine_runs w)\<rparr> in
      case ocr_predict e (files w image_path) of
        Inl x \<Rightarrow> (w1, Inl x)
      | Inr result \<Rightarrow> (w1, Inr (concat (map items_of_res result))))"

section \<open>PDF OCR adapter\<close>

definition msg_pdf_needs :: pystr where
  "msg_pdf_needs =
     [80, 68, 70, 32, 34389, 29702, 38656, 35201, 23433, 35037, 32] @ ustr ''pdf2image'' @
     [32, 21644, 32] @ ustr ''poppler-utils''"

text \<open>
  The loop over the page images: each is saved under a fresh temporary name, read by
  the image adapter, and unlinked when the adapter returns. \<open>i\<close> counts the pages
  from 0. An \<open>ImportError\<close> inside the loop is caught by the handler around it.
\<close>

fun pdf_pages ::
  "'a env_scheme \<Rightarrow> world \<Rightarrow> nat \<Rightarrow> pystr list \<Rightarrow> ocr_item list \<Rightarrow> world \<times> (exn + ocr_item list)" where
  "pdf_pages e w i [] all_results = (w, Inr all_results)"
| "pdf_pages e w i (img # images) all_results =
     (let tmp = tmp_name e (tmp_count w);
          w1 = w\<lparr>files := (files w)(tmp \<mapsto> img), tmp_count := Suc (tmp_count w)\<rparr>
      in case process_image_ocr e w1 tmp of
           (w2, Inl (ImportError m)) \<Rightarrow> (w2, Inl (HTTPException 500 msg_pdf_needs))
         | (w2, Inl x) \<Rightarrow> (w2, Inl x)
         | (w2, Inr page_results) \<Rightarrow>
             pdf_pages e (w2\<lparr>files := (files w2)(tmp := None)\<rparr>) (Suc i) images
               (all_results @ map (\<lambda>r. r\<lparr>page := Some (i + 1)\<rparr>) page_results))"

definition process_pdf_ocr :: "'a env_scheme \<Rightarrow> world \<Rightarrow> pystr \<Rightarrow> world \<times> (exn + ocr_item list)" where
  "process_pdf_ocr e w pdf_path =
     (case structure_predict e of
        Some predict \<Rightarrow>
          (let w1 = w\<lparr>engine_runs := Suc (engine_runs w)\<rparr> in
           case predict (files w pdf_path) of
             Inl x \<Rightarrow> (w1, Inl x)
           | Inr result \<Rightarrow>
               (w1, Inr (concat (map (\<lambda>res. case res of
                   None \<Rightarrow> []
                 | Some text_contents \<Rightarrow>
                     map (\<lambda>t. \<lparr>item_text = t, confidence = 1, bbox = [], page = None\<rparr>)
                       text_contents) result))))
      | None \<Rightarrow>
          (case pdf_to_images e of
             None \<Rightarrow> (w, Inl (HTTPException 500 msg_pdf_needs))
           | Some convert \<Rightarrow>
               (case convert (files w pdf_path) of
                  Inl (ImportError m) \<Rightarrow> (w, Inl (HTTPException 500 msg_pdf_needs))
                | Inl x \<Rightarrow> (w, Inl x)
                | Inr images \<Rightarrow> pdf_pages e w 0 images [])))"

section \<open>HTTP endpoint layer\<close>

record OCRResult =
  result_text :: pystr
  result_confidence :: real
  result_bbox :: "real list list"

record OCRResponse =
  success :: bool
  response_filename :: pystr
  file_type :: pystr
  results :: "OCRResult list"
  full_text :: pystr
  processing_time :: real
  timestamp :: pystr

record TableResponse =
  table_success :: bool
  csv_content :: pystr
  markdown_table :: pystr
  row_count :: nat
  col_count :: nat

definition msg_ocr_failed :: pystr where
  "msg_ocr_failed = [79, 67, 82, 32, 34389, 29702, 22833, 25943, 58, 32]"

definition msg_table_failed :: pystr where
  "msg_table_failed = [34920, 26684, 36681, 25563, 22833, 25943, 58, 32]"

definition msg_convert_failed :: pystr where
  "msg_convert_failed = [36681, 25563, 22833, 25943, 58, 32]"

definition msg_internal_error :: pystr where
  "msg_internal_error = [20839, 37096, 20282, 26381, 22120, 37679, 35492]"

text \<open>\<open>UPLOAD_DIR / f"{file_id}{file_ext}"\<close>, with the next unique id.\<close>

definition temp_path_of :: "'a env_scheme \<Rightarrow> world \<Rightarrow> pystr \<Rightarrow> pystr" where
  "temp_path_of e w file_ext = upload_dir e @ [SLASH] @ uuid4 e (uuid_count w) @ file_ext"

text \<open>\<open>content = await file.read()\<close> and the write of \<open>content\<close> to the path.\<close>

definition store_upload :: "'a env_scheme \<Rightarrow> world \<Rightarrow> pystr \<Rightarrow> upload \<Rightarrow> world \<times> (exn + unit)" where
  "store_upload e w temp_path file =
     (case read_result file of
        Inl x \<Rightarrow> (w, Inl x)
      | Inr content \<Rightarrow>
          (case disk_write e temp_path of
             Written \<Rightarrow> (w\<lparr>files := (files w)(temp_path \<mapsto> content)\<rparr>, Inr ())
           | WriteFailed x None \<Rightarrow> (w, Inl x)
           | WriteFailed x (Some partial) \<Rightarrow> (w\<lparr>files := (files w)(temp_path \<mapsto> partial)\<rparr>, Inl x)))"

text \<open>The choice of the adapter by the extension.\<close>

definition run_adapter :: "'a env_scheme \<Rightarrow> world \<Rightarrow> pystr \<Rightarrow> pystr \<Rightarrow> world \<times> (exn + ocr_item list)" where
  "run_adapter e w file_ext temp_path =
     (if file_ext \<in> ALLOWED_PDF_EXTENSIONS then process_pdf_ocr e w temp_path
      else process_image_ocr e w temp_path)"

text \<open>The \<open>finally\<close> block: \<open>if temp_path.exists(): temp_path.unlink()\<close>.\<close>

definition cleanup :: "world \<Rightarrow> pystr \<Rightarrow> world" where
  "cleanup w temp_path =
     (if files w temp_path \<noteq> None then w\<lparr>files := (files w)(temp_path := None)\<rparr> else w)"

text \<open>The body of the \<open>try\<close> of \<open>ocr_recognize\<close>.\<close>

definition recognize_body ::
  "'a env_scheme \<Rightarrow> world \<Rightarrow> upload \<Rightarrow> pystr \<Rightarrow> pystr \<Rightarrow> world \<times> (exn + OCRResponse)" where
  "recognize_body e w file file_ext temp_path =
     (case store_upload e w temp_path file of
        (w1, Inl x) \<Rightarrow> (w1, Inl x)
      | (w1, Inr u) \<Rightarrow>
          (case run_adapter e w1 file_ext temp_path of
             (w2, Inl x) \<Rightarrow> (w2, Inl x)
           | (w2, Inr ocr_results) \<Rightarrow>
               (w2, Inr \<lparr>success = True,
                         response_filename = filename file,
                         file_type = (if file_ext \<in> ALLOWED_PDF_EXTENSIONS then ustr ''pdf''
                                      else ustr ''image''),
                         results = map (\<lambda>r. \<lparr>result_text = item_text r,
                                               result_confidence = confidence r,
                                               result_bbox = bbox r\<rparr>) ocr_results,
                         full_text = py_join [LF] (map item_text ocr_results),
                         processing_time = elapsed e,
                         timestamp = now_iso e\<rparr>)))"

text \<open>
  \<open>ocr_recognize\<close>: the validation, which raises before any file is written; then
  the \<open>try\<close> with its handler, which turns every exception into a 500, and its
  \<open>finally\<close>.
\<close>

definition ocr_recognize :: "'a env_scheme \<Rightarrow> world \<Rightarrow> upload \<Rightarrow> world \<times> (exn + OCRResponse)" where
  "ocr_recognize e w file =
     (case validate_file e (filename file) of
        (False, result) \<Rightarrow> (w, Inl (HTTPException 400 result))
      | (True, file_ext) \<Rightarrow>
          let temp_path = temp_path_of e w file_ext;
              w0 = w\<lparr>uuid_count := Suc (uuid_count w)\<rparr>
          in case recognize_body e w0 file file_ext temp_path of
               (w1, Inl x) \<Rightarrow>
                 (cleanup w1 temp_path, Inl (HTTPException 500 (msg_ocr_failed @ str_exn e x)))
             | (w1, Inr response) \<Rightarrow> (cleanup w1 temp_path, Inr response))"

text \<open>One entry of the batch response.\<close>

record batch_item =
  item_filename :: pystr
  item_success :: bool
  item_data :: "OCRResponse option"
  item_error :: "pystr option"

record batch_response =
  batch_success :: bool
  total :: nat
  processed :: nat
  batch_results :: "batch_item list"
  batch_timestamp :: pystr

text \<open>The entry that \<open>ocr_batch\<close> appends for a file, from what \<open>ocr_recognize\<close>
  returned or raised: the three branches of its \<open>try\<close>.\<close>

definition batch_entry :: "'a env_scheme \<Rightarrow> upload \<Rightarrow> exn + OCRResponse \<Rightarrow> batch_item" where
  "batch_entry e file r =
     (case r of
        Inr result \<Rightarrow>
          \<lparr>item_filename = filename file, item_success = True,
           item_data = Some result, item_error = None\<rparr>
      | Inl (HTTPException code d) \<Rightarrow>
          \<lparr>item_filename = filename file, item_success = False,
           item_data = None, item_error = Some d\<rparr>
      | Inl x \<Rightarrow>
          \<lparr>item_filename = filename file, item_success = False,
           item_data = None, item_error = Some (str_exn e x)\<rparr>)"

text \<open>The loop of \<open>ocr_batch\<close> with its variable \<open>results\<close>, written \<open>collected\<close>.\<close>

fun batch_loop :: "'a env_scheme \<Rightarrow> world \<Rightarrow> upload list \<Rightarrow> batch_item list \<Rightarrow> world \<times> batch_item list" where
  "batch_loop e w [] collected = (w, collected)"
| "batch_loop e w (file # rest) collected =
     (case ocr_recognize e w file of
        (w1, r) \<Rightarrow> batch_loop e w1 rest (collected @ [batch_entry e file r]))"

definition ocr_batch :: "'a env_scheme \<Rightarrow> world \<Rightarrow> upload list \<Rightarrow> world \<times> batch_response" where
  "ocr_batch e w uploads =
     (case batch_loop e w uploads [] of
        (w1, collected) \<Rightarrow>
          (w1, \<lparr>batch_success = True,
                total = length uploads,
                processed = length (filter item_success collected),
                batch_results = collected,
                batch_timestamp = now_iso e\<rparr>))"

text \<open>The body of the \<open>try\<close> of \<open>ocr_to_table\<close>.\<close>

definition to_table_body ::
  "'a env_scheme \<Rightarrow> world \<Rightarrow> upload \<Rightarrow> pystr \<Rightarrow> pystr \<Rightarrow> world \<times> (exn + TableResponse)" where
  "to_table_body e w file file_ext temp_path =
     (case store_upload e w temp_path file of
        (w1, Inl x) \<Rightarrow> (w1, Inl x)
      | (w1, Inr u) \<Rightarrow>
          (case run_adapter e w1 file_ext temp_path of
             (w2, Inl x) \<Rightarrow> (w2, Inl x)
           | (w2, Inr ocr_results) \<Rightarrow>
               (case convert_to_table ocr_results (ustr ''auto'') of
                  Inl x \<Rightarrow> (w2, Inl x)
                | Inr (csv, md, rows, cols) \<Rightarrow>
                    (w2, Inr \<lparr>table_success = True, csv_content = csv, markdown_table = md,
                              row_count = rows, col_count = cols\<rparr>))))"

definition ocr_to_table :: "'a env_scheme \<Rightarrow> world \<Rightarrow> upload \<Rightarrow> world \<times> (exn + TableResponse)" where
  "ocr_to_table e w file =
     (case validate_file e (filename file) of
        (False, result) \<Rightarrow> (w, Inl (HTTPException 400 result))
      | (True, file_ext) \<Rightarrow>
          let temp_path = temp_path_of e w file_ext;
              w0 = w\<lparr>uuid_count := Suc (uuid_count w)\<rparr>
          in case to_table_body e w0 file file_ext temp_path of
               (w1, Inl x) \<Rightarrow>
                 (cleanup w1 temp_path, Inl (HTTPException 500 (msg_table_failed @ str_exn e x)))
             | (w1, Inr response) \<Rightarrow> (cleanup w1 temp_path, Inr response))"

text \<open>\<open>convert_text_to_table\<close>: the lines of the stripped text that are not blank
  become items.\<close>

definition convert_text_to_table :: "'a env_scheme \<Rightarrow> pystr \<Rightarrow> pystr \<Rightarrow> exn + TableResponse" where
  "convert_text_to_table e txt delimiter =
     (let lines = split_from [LF] [] (py_strip txt);
          ocr_results = map (\<lambda>line. \<lparr>item_text = line, confidence = 1, bbox = [], page = None\<rparr>)
                          (filter (\<lambda>line. py_strip line \<noteq> []) lines)
      in case convert_to_table ocr_results delimiter of
           Inl x \<Rightarrow> Inl (HTTPException 500 (msg_convert_failed @ str_exn e x))
         | Inr (csv, md, rows, cols) \<Rightarrow>
             Inr \<lparr>table_success = True, csv_content = csv, markdown_table = md,
                  row_count = rows, col_count = cols\<rparr>)"

text \<open>The error handlers, and the response that the application sends: the handler
  for \<open>HTTPException\<close> when the endpoint raised one, the general handler for any
  other exception.\<close>

record error_content =
  error_success :: bool
  error :: pystr
  error_status_code :: "nat option"
  error_detail :: "pystr option"

record json_response =
  response_status :: nat
  content :: error_content

definition http_exception_handler :: "nat \<Rightarrow> pystr \<Rightarrow> json_response" where
  "http_exception_handler code d =
     \<lparr>response_status = code,
      content = \<lparr>error_success = False, error = d, error_status_code = Some code,
                 error_detail = None\<rparr>\<rparr>"

definition general_exception_handler :: "'a env_scheme \<Rightarrow> exn \<Rightarrow> json_response" where
  "general_exception_handler e x =
     \<lparr>response_status = 500,
      content = \<lparr>error_success = False, error = msg_internal_error, error_status_code = None,
                 error_detail = Some (str_exn e x)\<rparr>\<rparr>"

definition app_response :: "'a env_scheme \<Rightarrow> exn + 'b \<Rightarrow> json_response + 'b" where
  "app_response e r =
     (case r of
        Inl (HTTPException code d) \<Rightarrow> Inl (http_exception_handler code d)
      | Inl x \<Rightarrow> Inl (general_exception_handler e x)
      | Inr v \<Rightarrow> Inr v)"

text \<open>
  An environment for evaluation: every write succeeds; the engine fails on the
  content \<open>corrupt\<close> and on a missing file, and otherwise recognises the content of
  the file as one text; no structure engine and no PDF rasteriser.
\<close>

definition env0 :: env where
  "env0 =
     \<lparr>str_lower = map lower_cp,
      set_iter = [ustr ''.png'', ustr ''.jpg'', ustr ''.jpeg'', ustr ''.bmp'', ustr ''.gif'',
                  ustr ''.webp'', ustr ''.tiff'', ustr ''.tif'', ustr ''.pdf''],
      upload_dir = ustr ''/srv/uploads'',
      uuid4 = (\<lambda>n. ustr ''id'' @ replicate n 120),
      tmp_name = (\<lambda>n. ustr ''/tmp/page'' @ replicate n 120),
      disk_write = (\<lambda>p. Written),
      ocr_predict = (\<lambda>c. case c of
                       None \<Rightarrow> Inl (OtherError (ustr ''no such file''))
                     | Some body \<Rightarrow>
                         if body = ustr ''corrupt'' then Inl (OtherError (ustr ''cannot read image''))
                         else Inr [RecTexts [body] None None]),
      structure_predict = None,
      pdf_to_images = None,
      exc_str = (\<lambda>code d. d),
      elapsed = 0,
      now_iso = ustr ''2024-01-01T00:00:00''\<rparr>"

definition world0 :: world where
  "world0 = \<lparr>files = Map.empty, engine_runs = 0, uuid_count = 0, tmp_count = 0\<rparr>"

text \<open>Three lines, the second of which holds only tabs.\<close>

definition sparse_lines :: "pystr list" where
  "sparse_lines = [ustr ''a'' @ TAB # ustr ''b'', [TAB, TAB], ustr ''c'']"

text \<open>Three uploads: a readable image, an image that the engine cannot read, and a
  file with an extension that is not allowed.\<close>

definition up_ok :: upload where
  "up_ok = \<lparr>filename = ustr ''scan.png'', read_result = Inr (ustr ''hello'')\<rparr>"

definition up_corrupt :: upload where
  "up_corrupt = \<lparr>filename = ustr ''bad.png'', read_result = Inr (ustr ''corrupt'')\<rparr>"

definition up_exe :: upload where
  "up_exe = \<lparr>filename = ustr ''photo.exe'', read_result = Inr (ustr ''hello'')\<rparr>"

text \<open>The response of \<open>ocr_recognize\<close> to the readable image in that environment.\<close>

definition ok_response :: OCRResponse where
  "ok_response =
     \<lparr>success = True, response_filename = ustr ''scan.png'', file_type = ustr ''image'',
      results = [\<lparr>result_text = ustr ''hello'', result_confidence = 1, result_bbox = []\<rparr>],
      full_text = ustr ''hello'', processing_time = 0,
      timestamp = ustr ''2024-01-01T00:00:00''\<rparr>"

text \<open>An upload without a file name.\<close>

definition up_noname :: upload where
  "up_noname = \<lparr>filename = [], read_result = Inr (ustr ''hello'')\<rparr>"

section \<open>Properties of the validator\<close>

lemma sublist_msg_unsupported: "sublist ext (msg_unsupported rt ext)"
  unfolding msg_unsupported_def
  by (rule sublist_appendI)

text \<open>
  Claim C2. Validation of the empty name fails. A name whose lower-cased suffix is in
  the allow-set is accepted, and that suffix is returned. Every other name is rejected
  with a message, returned as a value, in which the rejected suffix occurs.
\<close>

theorem validate_file_spec:
  "validate_file rt [] = (False, msg_no_filename) \<and>
   (fname \<noteq> [] \<and> str_lower rt (path_suffix fname) \<in> ALLOWED_EXTENSIONS \<longrightarrow>
      validate_file rt fname = (True, str_lower rt (path_suffix fname))) \<and>
   (fname \<noteq> [] \<and> str_lower rt (path_suffix fname) \<notin> ALLOWED_EXTENSIONS \<longrightarrow>
      validate_file rt fname = (False, msg_unsupported rt (str_lower rt (path_suffix fname))) \<and>
      sublist (str_lower rt (path_suffix fname))
        (snd (validate_file rt fname)))"
  by (simp add: validate_file_def Let_def sublist_msg_unsupported)

lemma suffix_photo_exe: "str_lower rt0 (path_suffix (ustr ''photo.exe'')) = ustr ''.exe''" by code_simp
lemma exe_not_allowed: "ustr ''.exe'' \<notin> ALLOWED_EXTENSIONS" by code_simp
lemma suffix_scan_png: "str_lower rt0 (path_suffix (ustr ''dir/Scan.PNG'')) = ustr ''.png''" by code_simp
lemma png_allowed: "ustr ''.png'' \<in> ALLOWED_EXTENSIONS" by code_simp
lemma photo_exe_nonempty: "ustr ''photo.exe'' \<noteq> []" by code_simp
lemma scan_png_nonempty: "ustr ''dir/Scan.PNG'' \<noteq> []" by code_simp
theorem validate_file_spec_witness:
  "(ustr ''dir/Scan.PNG'' \<noteq> [] \<and> ustr ''.png'' \<in> ALLOWED_EXTENSIONS \<and>
    validate_file rt0 (ustr ''dir/Scan.PNG'') = (True, ustr ''.png'')) \<and>
   (ustr ''photo.exe'' \<noteq> [] \<and> ustr ''.exe'' \<notin> ALLOWED_EXTENSIONS \<and>
    validate_file rt0 (ustr ''photo.exe'') = (False, msg_unsupported rt0 (ustr ''.exe'')) \<and>
    sublist (ustr ''.exe'') (snd (validate_file rt0 (ustr ''photo.exe''))))"
proof -
  have ok: "ustr ''dir/Scan.PNG'' \<noteq> [] \<and>
      str_lower rt0 (path_suffix (ustr ''dir/Scan.PNG'')) \<in> ALLOWED_EXTENSIONS"
    using suffix_scan_png png_allowed scan_png_nonempty by simp
  have bad: "ustr ''photo.exe'' \<noteq> [] \<and>
      str_lower rt0 (path_suffix (ustr ''photo.exe'')) \<notin> ALLOWED_EXTENSIONS"
    using suffix_photo_exe exe_not_allowed photo_exe_nonempty by simp
  from validate_file_spec [of rt0 "ustr ''dir/Scan.PNG''"] ok
  have 1: "validate_file rt0 (ustr ''dir/Scan.PNG'') = (True, ustr ''.png'')"
    by (simp add: suffix_scan_png)
  from validate_file_spec [of rt0 "ustr ''photo.exe''"] bad
  have 2: "validate_file rt0 (ustr ''photo.exe'') = (False, msg_unsupported rt0 (ustr ''.exe'')) \<and>
    sublist (ustr ''.exe'') (snd (validate_file rt0 (ustr ''photo.exe'')))"
    by (simp add: suffix_photo_exe sublist_msg_unsupported)
  from 1 2 exe_not_allowed png_allowed photo_exe_nonempty scan_png_nonempty show ?thesis by blast
qed

section \<open>Properties of the delimiter detection\<close>

lemma ustr_simps:
  "ustr [] = []" "ustr (c # cs) = of_char c # ustr cs"
  by (simp_all add: ustr_def)

lemma delimiter_names_distinct:
  "ustr ''auto'' \<noteq> ustr ''tab''" "ustr ''auto'' \<noteq> ustr ''comma''" "ustr ''auto'' \<noteq> ustr ''space''"
  "[TAB] \<noteq> ustr ''auto''" "[COMMA] \<noteq> ustr ''auto''"
  "[TAB] \<noteq> ustr ''space''" "[TAB] \<noteq> ustr ''tab''" "[TAB] \<noteq> ustr ''comma''"
  "[COMMA] \<noteq> ustr ''space''" "[COMMA] \<noteq> ustr ''tab''" "[COMMA] \<noteq> ustr ''comma''"
  "ustr ''tab'' \<noteq> ustr ''space''" "ustr ''comma'' \<noteq> ustr ''space''" "ustr ''comma'' \<noteq> ustr ''tab''"
  by (simp_all add: ustr_simps TAB_def COMMA_def)

lemma split_line_TAB: "split_line [TAB] line = split_line (ustr ''tab'') line"
  using delimiter_names_distinct by (simp add: split_line_def)

lemma split_line_COMMA: "split_line [COMMA] line = split_line (ustr ''comma'') line"
  using delimiter_names_distinct by (simp add: split_line_def)

lemma parse_rows_cong:
  "(\<And>line. split_line d line = split_line d' line) \<Longrightarrow> parse_rows d ls acc = parse_rows d' ls acc"
proof (induction ls arbitrary: acc)
  case Nil
  then show ?case by simp
next
  case (Cons l ls)
  obtain td mc where acc: "acc = (td, mc)" by (cases acc)
  show ?case
    unfolding acc using Cons by (simp add: Let_def split: sum.splits)
qed

lemma resolve_named:
  "resolve_delimiter (ustr ''tab'') ls = ustr ''tab''"
  "resolve_delimiter (ustr ''comma'') ls = ustr ''comma''"
  "resolve_delimiter (ustr ''space'') ls = ustr ''space''"
  using delimiter_names_distinct by (simp_all add: resolve_delimiter_def)

lemma convert_auto:
  "convert_to_table rs (ustr ''auto'') =
     (let lines = collect_lines rs in
      if length lines < 2 * sum_list (map (count_char TAB) lines) then convert_to_table rs (ustr ''tab'')
      else if length lines < 2 * sum_list (map (count_char COMMA) lines) then convert_to_table rs (ustr ''comma'')
      else convert_to_table rs (ustr ''space''))"
proof -
  have t: "parse_rows [TAB] ls acc = parse_rows (ustr ''tab'') ls acc" for ls acc
    by (rule parse_rows_cong) (rule split_line_TAB)
  have c: "parse_rows [COMMA] ls acc = parse_rows (ustr ''comma'') ls acc" for ls acc
    by (rule parse_rows_cong) (rule split_line_COMMA)
  show ?thesis
    by (simp add: convert_to_table_def Let_def resolve_named t c resolve_delimiter_def detect_delimiter_def)
qed

lemma count_char_pos: "c \<in> set l \<Longrightarrow> 0 < count_char c l"
  by (induction l) (auto simp: count_char_def)

lemma count_char_zero: "c \<notin> set l \<Longrightarrow> count_char c l = 0"
  by (induction l) (auto simp: count_char_def)

lemma sum_count_ge: "(\<forall>l \<in> set ls. c \<in> set l) \<Longrightarrow> length ls \<le> sum_list (map (count_char c) ls)"
proof (induction ls)
  case Nil then show ?case by simp
next
  case (Cons l ls)
  then have "0 < count_char c l" by (simp add: count_char_pos)
  with Cons show ?case by simp
qed

lemma sum_count_zero: "(\<forall>l \<in> set ls. c \<notin> set l) \<Longrightarrow> sum_list (map (count_char c) ls) = 0"
  by (induction ls) (simp_all add: count_char_zero)


lemma split_line_strategies:
  "split_line [TAB] line = Inr (split_from [TAB] [] line)"
  "split_line [COMMA] line = Inr (split_from [COMMA] [] line)"
  "split_line (ustr ''space'') line = Inr (re_split_ws (py_strip line))"
  using delimiter_names_distinct by (simp_all add: split_line_def py_split_def)

text \<open>
  Claim C1. With the hint \<open>auto\<close> and a non-empty list of collected lines, the
  heuristic splits on the tab when the tabs of all lines number more than half the
  lines; otherwise on the comma when the commas number more than half the lines;
  otherwise on runs of two or more whitespace characters. Lines that each hold a tab
  and no comma select the tab; commas above half the lines and no tab select the comma.
\<close>

theorem auto_delimiter_choice:
  assumes "lines = collect_lines rs" and "lines \<noteq> []"
    and "tabs = sum_list (map (count_char TAB) lines)"
    and "commas = sum_list (map (count_char COMMA) lines)"
  shows "(length lines < 2 * tabs \<longrightarrow>
            resolve_delimiter (ustr ''auto'') lines = [TAB] \<and>
            split_line (resolve_delimiter (ustr ''auto'') lines) line = Inr (split_from [TAB] [] line) \<and>
            convert_to_table rs (ustr ''auto'') = convert_to_table rs (ustr ''tab'')) \<and>
         (\<not> length lines < 2 * tabs \<and> length lines < 2 * commas \<longrightarrow>
            resolve_delimiter (ustr ''auto'') lines = [COMMA] \<and>
            split_line (resolve_delimiter (ustr ''auto'') lines) line = Inr (split_from [COMMA] [] line) \<and>
            convert_to_table rs (ustr ''auto'') = convert_to_table rs (ustr ''comma'')) \<and>
         (\<not> length lines < 2 * tabs \<and> \<not> length lines < 2 * commas \<longrightarrow>
            resolve_delimiter (ustr ''auto'') lines = ustr ''space'' \<and>
            split_line (resolve_delimiter (ustr ''auto'') lines) line = Inr (re_split_ws (py_strip line)) \<and>
            convert_to_table rs (ustr ''auto'') = convert_to_table rs (ustr ''space'')) \<and>
         ((\<forall>l \<in> set lines. TAB \<in> set l \<and> COMMA \<notin> set l) \<longrightarrow>
            resolve_delimiter (ustr ''auto'') lines = [TAB]) \<and>
         (length lines < 2 * commas \<and> (\<forall>l \<in> set lines. TAB \<notin> set l) \<longrightarrow>
            resolve_delimiter (ustr ''auto'') lines = [COMMA])"
proof -
  have res: "resolve_delimiter (ustr ''auto'') lines =
      (if length lines < 2 * tabs then [TAB]
       else if length lines < 2 * commas then [COMMA] else ustr ''space'')"
    by (simp add: resolve_delimiter_def detect_delimiter_def Let_def assms(3,4))
  have conv: "convert_to_table rs (ustr ''auto'') =
      (if length lines < 2 * tabs then convert_to_table rs (ustr ''tab'')
       else if length lines < 2 * commas then convert_to_table rs (ustr ''comma'')
       else convert_to_table rs (ustr ''space''))"
    using convert_auto [of rs] by (simp add: Let_def assms(1,3,4))
  have all_tabs: "length lines < 2 * tabs" if "\<forall>l \<in> set lines. TAB \<in> set l \<and> COMMA \<notin> set l"
  proof -
    from that have "length lines \<le> tabs"
      unfolding assms(3) by (intro sum_count_ge) simp
    moreover from assms(2) have "0 < length lines" by simp
    ultimately show ?thesis by linarith
  qed
  have no_tabs: "\<not> length lines < 2 * tabs" if "\<forall>l \<in> set lines. TAB \<notin> set l"
  proof -
    from that have "tabs = 0"
      unfolding assms(3) by (rule sum_count_zero)
    then show ?thesis by simp
  qed
  show ?thesis
    using all_tabs no_tabs by (simp add: res conv split_line_strategies)
qed


lemma scenario_collect: "collect_lines (map item scenario_lines) = scenario_lines"
  by code_simp
lemma scenario_nonempty: "scenario_lines \<noteq> []"
  by code_simp
lemma scenario_tabs: "sum_list (map (count_char TAB) scenario_lines) = 6"
  by code_simp
lemma scenario_commas: "sum_list (map (count_char COMMA) scenario_lines) = 0"
  by code_simp
lemma scenario_len: "length scenario_lines = 3"
  by code_simp
lemma scenario_all_tabs: "\<forall>l \<in> set scenario_lines. TAB \<in> set l \<and> COMMA \<notin> set l"
  by code_simp

theorem auto_delimiter_choice_witness:
  "scenario_lines \<noteq> [] \<and> length scenario_lines < 2 * 6 \<and>
   list_all (\<lambda>l. TAB \<in> set l \<and> COMMA \<notin> set l) scenario_lines \<and>
   resolve_delimiter (ustr ''auto'') scenario_lines = [TAB] \<and>
   convert_to_table (map item scenario_lines) (ustr ''auto'') =
     convert_to_table (map item scenario_lines) (ustr ''tab'')"
  using auto_delimiter_choice [OF scenario_collect [symmetric] scenario_nonempty
      scenario_tabs [symmetric] scenario_commas [symmetric], of "[]"]
    scenario_nonempty scenario_all_tabs
  by (simp add: scenario_len list_all_iff)

section \<open>Properties of the table conversion\<close>

lemma clean_cells_nonempty: "c \<in> set (clean_cells cells) \<Longrightarrow> c \<noteq> []"
  by (auto simp: clean_cells_def)

lemma split_line_empty: "split_line [] line = Inl (ValueError (ustr ''empty separator''))"
  by (simp add: split_line_def py_split_def ustr_simps)

lemma split_line_ok: "d \<noteq> [] \<Longrightarrow> \<exists>cells. split_line d line = Inr cells"
  by (simp add: split_line_def py_split_def)

lemma line_cells_ok: "d \<noteq> [] \<Longrightarrow> \<exists>cells. split_line d line = Inr cells \<and> line_cells d line = clean_cells cells"
  using split_line_ok [of d line] by (auto simp: line_cells_def)

lemma parse_rows_Inr:
  "d \<noteq> [] \<Longrightarrow>
   parse_rows d ls (td, mc) =
     Inr (td @ filter (\<lambda>r. r \<noteq> []) (map (line_cells d) ls),
          foldl max mc (map length (filter (\<lambda>r. r \<noteq> []) (map (line_cells d) ls))))"
proof (induction ls arbitrary: td mc)
  case Nil
  then show ?case by simp
next
  case (Cons l ls)
  from line_cells_ok [OF Cons.prems, of l]
  obtain cells where c: "split_line d l = Inr cells" "line_cells d l = clean_cells cells"
    by blast
  show ?case
    using Cons.IH [OF Cons.prems] by (simp add: c Let_def)
qed

lemma parse_rows_Inl:
  "ls \<noteq> [] \<Longrightarrow> parse_rows [] ls acc = Inl (ValueError (ustr ''empty separator''))"
  by (cases ls; cases acc) (simp_all add: split_line_empty)

lemma convert_via_grid:
  "convert_to_table rs d =
     (case table_grid rs d of
        Inl x \<Rightarrow> Inl x
      | Inr (td, mc) \<Rightarrow>
          if td = [] then Inr ([], [], 0, 0)
          else Inr (csv_writerows (pad_rows mc td), md_table (pad_rows mc td) mc, length td, mc))"
proof (cases "rs = []")
  case True
  then show ?thesis
    by (simp add: convert_to_table_def table_grid_def collect_lines_def)
next
  case False
  then show ?thesis
    by (auto simp: convert_to_table_def table_grid_def Let_def pad_rows_def split: sum.splits)
qed

lemma table_grid_cases:
  "table_grid rs d =
     (if collect_lines rs = [] then Inr ([], 0)
      else if resolve_delimiter d (collect_lines rs) = [] then Inl (ValueError (ustr ''empty separator''))
      else Inr (filter (\<lambda>r. r \<noteq> []) (map (line_cells (resolve_delimiter d (collect_lines rs))) (collect_lines rs)),
                foldl max 0 (map length (filter (\<lambda>r. r \<noteq> [])
                  (map (line_cells (resolve_delimiter d (collect_lines rs))) (collect_lines rs))))))"
  by (simp add: table_grid_def Let_def parse_rows_Inl parse_rows_Inr)


text \<open>
  Claim C7. The conversion returns the empty CSV string, the empty Markdown string
  and the counts 0 and 0 when the result set is empty, when no item has a text, and
  when no line yields a row; the text endpoint returns them for the empty text.
\<close>

theorem empty_table_outputs:
  "(rs = [] \<longrightarrow> convert_to_table rs d = Inr ([], [], 0, 0)) \<and>
   (collect_lines rs = [] \<longrightarrow> convert_to_table rs d = Inr ([], [], 0, 0)) \<and>
   (table_grid rs d = Inr ([], mc) \<longrightarrow> convert_to_table rs d = Inr ([], [], 0, 0)) \<and>
   convert_text_to_table e [] d =
     Inr \<lparr>table_success = True, csv_content = [], markdown_table = [],
          row_count = 0, col_count = 0\<rparr>"
proof -
  have 1: "rs = [] \<longrightarrow> convert_to_table rs d = Inr ([], [], 0, 0)"
    by (simp add: convert_to_table_def)
  have 2: "collect_lines rs = [] \<longrightarrow> convert_to_table rs d = Inr ([], [], 0, 0)"
    by (simp add: convert_to_table_def Let_def)
  have 3: "table_grid rs d = Inr ([], mc) \<longrightarrow> convert_to_table rs d = Inr ([], [], 0, 0)"
    by (simp add: convert_via_grid)
  have "split_from [LF] [] (py_strip []) = [[]]"
    by (simp add: py_strip_def split_from.simps)
  then have 4: "convert_text_to_table e [] d =
     Inr \<lparr>table_success = True, csv_content = [], markdown_table = [],
          row_count = 0, col_count = 0\<rparr>"
    by (simp add: convert_text_to_table_def py_strip_def convert_to_table_def)
  from 1 2 3 4 show ?thesis by blast
qed

lemma blank_items_collect: "collect_lines [item []] = []"
  by code_simp

lemma tab_only_grid: "table_grid [item [TAB]] (ustr ''tab'') = Inr ([], 0)"
  by code_simp

theorem empty_table_outputs_witness:
  "collect_lines [item []] = [] \<and>
   convert_to_table [item []] (ustr ''auto'') = Inr ([], [], 0, 0) \<and>
   table_grid [item [TAB]] (ustr ''tab'') = Inr ([], 0) \<and>
   convert_to_table [item [TAB]] (ustr ''tab'') = Inr ([], [], 0, 0) \<and>
   convert_to_table [] (ustr ''comma'') = Inr ([], [], 0, 0)"
  using empty_table_outputs [of "[item []]" "ustr ''auto''" 0 env0]
    empty_table_outputs [of "[item [TAB]]" "ustr ''tab''" 0 env0]
    empty_table_outputs [of "[]" "ustr ''comma''" 0 env0]
    blank_items_collect tab_only_grid
  by simp

text \<open>
  Claim C10. A line whose cells are all empty after trimming gives no row: the rows
  of the grid are the cell lists of the lines that keep at least one cell, in order.
  So the row count is the number of such lines, at most the number of lines, and no
  row of the grid, before padding, is empty or holds an empty cell.
\<close>

theorem rows_are_lines_with_cells:
  assumes "convert_to_table rs d = Inr (csv, md, rows, cols)"
    and "lines = collect_lines rs"
    and "d' = resolve_delimiter d lines"
  shows "\<exists>td mc. table_grid rs d = Inr (td, mc) \<and>
           td = filter (\<lambda>r. r \<noteq> []) (map (line_cells d') lines) \<and>
           rows = length td \<and>
           rows = length (filter (\<lambda>l. line_cells d' l \<noteq> []) lines) \<and>
           rows \<le> length lines \<and>
           (\<forall>row \<in> set td. row \<noteq> [] \<and> (\<forall>c \<in> set row. c \<noteq> []))"
proof (cases "lines = []")
  case True
  with assms show ?thesis
    by (simp add: convert_via_grid table_grid_cases)
next
  case False
  have d': "d' \<noteq> []"
  proof
    assume "d' = []"
    with False assms(2,3) have "table_grid rs d = Inl (ValueError (ustr ''empty separator''))"
      by (simp add: table_grid_cases)
    with assms(1) show False by (simp add: convert_via_grid)
  qed
  define td where "td = filter (\<lambda>r. r \<noteq> []) (map (line_cells d') lines)"
  define mc where "mc = foldl max 0 (map length td)"
  have grid: "table_grid rs d = Inr (td, mc)"
    using False d' assms(2,3) by (simp add: table_grid_cases td_def mc_def)
  have rows: "rows = length td"
    using assms(1) by (simp add: convert_via_grid grid split: if_splits)
  have len: "length td = length (filter (\<lambda>l. line_cells d' l \<noteq> []) lines)"
    by (simp add: td_def filter_map o_def)
  have le: "length td \<le> length lines"
    unfolding len by (rule length_filter_le)
  have cells: "row \<noteq> [] \<and> (\<forall>c \<in> set row. c \<noteq> [])" if "row \<in> set td" for row
  proof -
    from that obtain l where "row = line_cells d' l" "row \<noteq> []"
      by (auto simp: td_def)
    moreover from line_cells_ok [OF d', of l]
    obtain cs where "line_cells d' l = clean_cells cs" by blast
    ultimately show ?thesis
      using clean_cells_nonempty by auto
  qed
  from grid rows len le cells show ?thesis
    unfolding td_def by blast
qed

lemmas cell_eval = ustr_def TAB_def isspace_def py_strip_def
  split_line_def py_split_def split_from.simps clean_cells_def line_cells_def
lemma sparse_cells:
  "line_cells (ustr ''tab'') (ustr ''a'' @ TAB # ustr ''b'') = [ustr ''a'', ustr ''b'']"
  "line_cells (ustr ''tab'') [TAB, TAB] = []"
  "line_cells (ustr ''tab'') (ustr ''c'') = [ustr ''c'']"
  by (simp_all add: cell_eval)
lemma sparse_collect: "collect_lines (map item sparse_lines) = sparse_lines"
  by (simp add: collect_lines_def item_def sparse_lines_def ustr_def TAB_def)
lemma sparse_grid:
  "table_grid (map item sparse_lines) (ustr ''tab'') = Inr ([[ustr ''a'', ustr ''b''], [ustr ''c'']], 2)"
proof -
  have "ustr ''tab'' \<noteq> []" by (simp add: ustr_def)
  moreover have "sparse_lines \<noteq> []" by (simp add: sparse_lines_def)
  ultimately show ?thesis
    unfolding table_grid_cases sparse_collect resolve_named
    by (simp add: sparse_lines_def sparse_cells)
qed
lemma sparse_convert:
  "convert_to_table (map item sparse_lines) (ustr ''tab'') =
     Inr (csv_writerows (pad_rows 2 [[ustr ''a'', ustr ''b''], [ustr ''c'']]),
          md_table (pad_rows 2 [[ustr ''a'', ustr ''b''], [ustr ''c'']]) 2, 2, 2)"
  by (simp add: convert_via_grid sparse_grid)

theorem rows_are_lines_with_cells_witness:
  "convert_to_table (map item sparse_lines) (ustr ''tab'') =
     Inr (csv_writerows (pad_rows 2 [[ustr ''a'', ustr ''b''], [ustr ''c'']]),
          md_table (pad_rows 2 [[ustr ''a'', ustr ''b''], [ustr ''c'']]) 2, 2, 2) \<and>
   line_cells (ustr ''tab'') [TAB, TAB] = [] \<and>
   table_grid (map item sparse_lines) (ustr ''tab'') =
     Inr ([[ustr ''a'', ustr ''b''], [ustr ''c'']], 2) \<and>
   (2::nat) = length (filter (\<lambda>l. line_cells (ustr ''tab'') l \<noteq> []) sparse_lines) \<and>
   (2::nat) < length sparse_lines"
proof -
  have d: "ustr ''tab'' = resolve_delimiter (ustr ''tab'') sparse_lines"
    by (simp add: resolve_named)
  have n: "(2::nat) < length sparse_lines"
    by (simp add: sparse_lines_def)
  from rows_are_lines_with_cells [OF sparse_convert sparse_collect [symmetric] d]
  have "(2::nat) = length (filter (\<lambda>l. line_cells (ustr ''tab'') l \<noteq> []) sparse_lines)"
    by blast
  with sparse_convert sparse_cells(2) sparse_grid n show ?thesis
    by blast
qed

section \<open>Properties of the image OCR adapter\<close>

lemma collect_from_enumerate:
  "collect_from k ts ss bs =
     map (\<lambda>(i, t). make_item i t ss bs) (filter (\<lambda>(i, t). t \<noteq> []) (enumerate k ts))"
  by (induction ts arbitrary: k) simp_all

lemma make_item_fields:
  "item_text (make_item i t ss bs) = t"
  "confidence (make_item i t ss bs) = (if i < length ss \<and> ss ! i \<noteq> 0 then ss ! i else 1)"
  "bbox (make_item i t ss bs) = (if i < length bs then bs ! i else [])"
  "page (make_item i t ss bs) = None"
  by (simp_all add: make_item_def Let_def)

lemma item_text_collect_from:
  "map item_text (collect_from k ts ss bs) = filter (\<lambda>t. t \<noteq> []) ts"
  by (induction ts arbitrary: k) (simp_all add: make_item_fields)

text \<open>
  Claim C4, as amended. The items of the adapter are built from the enumerated texts
  that are not empty, in order, so the empty texts are left out. The confidence of
  the item at index \<open>i\<close> is the score at \<open>i\<close> when there is one and it is not
  zero, and 1 otherwise: a missing score and a score of zero both give 1. Its box is
  the box at \<open>i\<close> when there is one, and the empty list otherwise.
\<close>

theorem collect_items_spec:
  "collect_items texts scores boxes =
     map (\<lambda>(i, t). make_item i t scores boxes) (filter (\<lambda>(i, t). t \<noteq> []) (enumerate 0 texts)) \<and>
   map item_text (collect_items texts scores boxes) = filter (\<lambda>t. t \<noteq> []) texts \<and>
   confidence (make_item i t scores boxes) =
     (if i < length scores \<and> scores ! i \<noteq> 0 then scores ! i else 1) \<and>
   bbox (make_item i t scores boxes) = (if i < length boxes then boxes ! i else [])"
proof -
  have 1: "collect_items texts scores boxes =
     map (\<lambda>(i, t). make_item i t scores boxes) (filter (\<lambda>(i, t). t \<noteq> []) (enumerate 0 texts))"
    by (cases texts) (simp_all add: collect_items_def collect_from_enumerate del: collect_from.simps)
  have 2: "map item_text (collect_items texts scores boxes) = filter (\<lambda>t. t \<noteq> []) texts"
    by (cases texts) (simp_all add: collect_items_def item_text_collect_from del: collect_from.simps)
  from 1 2 show ?thesis
    by (simp only: make_item_fields simp_thms)
qed

text \<open>
  The claim as it was stated reads the confidence as the score whenever the score
  array reaches the index. A score of zero is a score that is present, and the
  confidence is 1.
\<close>

theorem zero_score_counterexample:
  "collect_items [ustr ''a''] [0] [[]] =
     [\<lparr>item_text = ustr ''a'', confidence = 1, bbox = [], page = None\<rparr>] \<and>
   confidence (hd (collect_items [ustr ''a''] [0] [[]])) \<noteq> [0::real] ! 0"
  by (simp add: collect_items_def make_item_def ustr_def)

section \<open>Properties of the endpoints\<close>

lemma cleanup_removes: "files (cleanup w p) p = None"
  by (simp add: cleanup_def)

lemma ocr_recognize_rejects:
  "validate_file e (filename file) = (False, m) \<Longrightarrow>
   ocr_recognize e w file = (w, Inl (HTTPException 400 m))"
  by (simp add: ocr_recognize_def)

lemma ocr_to_table_rejects:
  "validate_file e (filename file) = (False, m) \<Longrightarrow>
   ocr_to_table e w file = (w, Inl (HTTPException 400 m))"
  by (simp add: ocr_to_table_def)

lemma ocr_recognize_cleans:
  "validate_file e (filename file) = (True, ext) \<Longrightarrow>
   files (fst (ocr_recognize e w file)) (temp_path_of e w ext) = None"
  by (simp add: ocr_recognize_def Let_def cleanup_removes split: prod.splits sum.splits)

lemma ocr_to_table_cleans:
  "validate_file e (filename file) = (True, ext) \<Longrightarrow>
   files (fst (ocr_to_table e w file)) (temp_path_of e w ext) = None"
  by (simp add: ocr_to_table_def Let_def cleanup_removes split: prod.splits sum.splits)



text \<open>
  Claim C9, as amended. When the validator rejects the name of the upload, the two
  single-file endpoints \<open>ocr_recognize\<close> and \<open>ocr_to_table\<close> raise an
  \<open>HTTPException\<close> with status 400 and the message of the validator, before any
  file is written or any engine is run (the world is returned as it was). The handler
  turns it into a response with status 400 and the body
  \<open>{success: false, error: message, status_code: 400}\<close>. The message names the
  rejected extension; for an empty name it says that no name was given. In a batch the
  same rejection becomes the entry \<open>{success: false, error: message}\<close> of that file.
\<close>

theorem invalid_upload_rejected:
  assumes "validate_file e (filename file) = (False, m)"
  shows "ocr_recognize e w file = (w, Inl (HTTPException 400 m)) \<and>
         ocr_to_table e w file = (w, Inl (HTTPException 400 m)) \<and>
         app_response e (snd (ocr_recognize e w file)) =
           Inl \<lparr>response_status = 400,
                content = \<lparr>error_success = False, error = m, error_status_code = Some 400,
                           error_detail = None\<rparr>\<rparr> \<and>
         app_response e (snd (ocr_to_table e w file)) =
           Inl \<lparr>response_status = 400,
                content = \<lparr>error_success = False, error = m, error_status_code = Some 400,
                           error_detail = None\<rparr>\<rparr> \<and>
         engine_runs (fst (ocr_recognize e w file)) = engine_runs w \<and>
         engine_runs (fst (ocr_to_table e w file)) = engine_runs w \<and>
         m = (if filename file = [] then msg_no_filename
              else msg_unsupported e (str_lower e (path_suffix (filename file)))) \<and>
         batch_entry e file (snd (ocr_recognize e w file)) =
           \<lparr>item_filename = filename file, item_success = False, item_data = None,
            item_error = Some m\<rparr>"
proof -
  note r = ocr_recognize_rejects [OF assms, of w] and t = ocr_to_table_rejects [OF assms, of w]
  have m: "m = (if filename file = [] then msg_no_filename
              else msg_unsupported e (str_lower e (path_suffix (filename file))))"
    using assms by (simp add: validate_file_def Let_def split: if_splits)
  show ?thesis
    using m by (simp add: r t app_response_def http_exception_handler_def batch_entry_def)
qed

lemma env0_lower: "str_lower env0 = map lower_cp"
  by (simp add: env0_def)

lemma validate_photo_exe:
  "validate_file env0 (filename up_exe) = (False, msg_unsupported env0 (ustr ''.exe''))"
proof -
  have "str_lower env0 (path_suffix (ustr ''photo.exe'')) = ustr ''.exe''"
    using suffix_photo_exe by (simp add: env0_lower rt0_def)
  then show ?thesis
    using exe_not_allowed photo_exe_nonempty
    by (simp add: validate_file_def up_exe_def)
qed

theorem invalid_upload_rejected_witness:
  "validate_file env0 (filename up_exe) = (False, msg_unsupported env0 (ustr ''.exe'')) \<and>
   ocr_recognize env0 world0 up_exe =
     (world0, Inl (HTTPException 400 (msg_unsupported env0 (ustr ''.exe'')))) \<and>
   app_response env0 (snd (ocr_recognize env0 world0 up_exe)) =
     Inl \<lparr>response_status = 400,
          content = \<lparr>error_success = False, error = msg_unsupported env0 (ustr ''.exe''),
                     error_status_code = Some 400, error_detail = None\<rparr>\<rparr> \<and>
   sublist (ustr ''.exe'') (msg_unsupported env0 (ustr ''.exe''))"
proof -
  note h = invalid_upload_rejected [OF validate_photo_exe, of world0]
  from h have 1: "ocr_recognize env0 world0 up_exe =
     (world0, Inl (HTTPException 400 (msg_unsupported env0 (ustr ''.exe''))))"
    by (rule conjunct1)
  from h have 2: "app_response env0 (snd (ocr_recognize env0 world0 up_exe)) =
     Inl \<lparr>response_status = 400,
          content = \<lparr>error_success = False, error = msg_unsupported env0 (ustr ''.exe''),
                     error_status_code = Some 400, error_detail = None\<rparr>\<rparr>"
    by (rule conjunct1 [OF conjunct2 [OF conjunct2]])
  from validate_photo_exe 1 2 sublist_msg_unsupported [of "ustr ''.exe''" env0]
  show ?thesis by (intro conjI)
qed

text \<open>
  Claim C6. Once the name is accepted, \<open>ocr_recognize\<close> and \<open>ocr_to_table\<close> leave
  no file at the scratch path of the request, whatever happened in between: the
  upload could not be read or written, an adapter raised, the conversion raised, or
  the response was built. When the name is rejected nothing was written and the
  world is as before.
\<close>

theorem scratch_file_removed:
  "(validate_file e (filename file) = (True, ext) \<longrightarrow>
      files (fst (ocr_recognize e w file)) (temp_path_of e w ext) = None \<and>
      files (fst (ocr_to_table e w file)) (temp_path_of e w ext) = None) \<and>
   (validate_file e (filename file) = (False, m) \<longrightarrow>
      fst (ocr_recognize e w file) = w \<and> fst (ocr_to_table e w file) = w)"
  by (simp add: ocr_recognize_cleans ocr_to_table_cleans ocr_recognize_rejects
      ocr_to_table_rejects)

lemma suffix_png:
  "map lower_cp (path_suffix (ustr ''scan.png'')) = ustr ''.png''"
  "map lower_cp (path_suffix (ustr ''bad.png'')) = ustr ''.png''"
  by code_simp+

lemma validate_up_ok: "validate_file env0 (filename up_ok) = (True, ustr ''.png'')"
  using suffix_png(1) png_allowed
  by (simp add: validate_file_def up_ok_def env0_lower) (simp add: ustr_def)

lemma validate_up_corrupt: "validate_file env0 (filename up_corrupt) = (True, ustr ''.png'')"
  using suffix_png(2) png_allowed
  by (simp add: validate_file_def up_corrupt_def env0_lower) (simp add: ustr_def)

lemma png_not_pdf: "ustr ''.png'' \<notin> ALLOWED_PDF_EXTENSIONS"
  by (simp add: ALLOWED_PDF_EXTENSIONS_def ustr_def)

lemma stored_ok:
  "store_upload env0 world0 p up_ok = (world0\<lparr>files := (files world0)(p \<mapsto> ustr ''hello'')\<rparr>, Inr ())"
  by (simp add: store_upload_def env0_def up_ok_def)

lemma corrupt_outcome:
  "snd (ocr_recognize env0 world0 up_corrupt) =
     Inl (HTTPException 500 (msg_ocr_failed @ ustr ''cannot read image''))"
  by (simp add: ocr_recognize_def validate_up_corrupt recognize_body_def store_upload_def
      run_adapter_def png_not_pdf process_image_ocr_def Let_def)
     (simp add: env0_def up_corrupt_def ustr_def)


theorem scratch_file_removed_witness:
  "validate_file env0 (filename up_ok) = (True, ustr ''.png'') \<and>
   files (fst (store_upload env0 world0 (temp_path_of env0 world0 (ustr ''.png'')) up_ok))
     (temp_path_of env0 world0 (ustr ''.png'')) = Some (ustr ''hello'') \<and>
   files (fst (ocr_recognize env0 world0 up_ok)) (temp_path_of env0 world0 (ustr ''.png'')) = None \<and>
   files (fst (ocr_to_table env0 world0 up_ok)) (temp_path_of env0 world0 (ustr ''.png'')) = None \<and>
   validate_file env0 (filename up_corrupt) = (True, ustr ''.png'') \<and>
   snd (ocr_recognize env0 world0 up_corrupt) =
     Inl (HTTPException 500 (msg_ocr_failed @ ustr ''cannot read image'')) \<and>
   files (fst (ocr_recognize env0 world0 up_corrupt)) (temp_path_of env0 world0 (ustr ''.png'')) = None"
proof -
  note ok = scratch_file_removed [of env0 up_ok "ustr ''.png''" world0, THEN conjunct1, THEN mp,
      OF validate_up_ok]
  note bad = scratch_file_removed [of env0 up_corrupt "ustr ''.png''" world0, THEN conjunct1,
      THEN mp, OF validate_up_corrupt]
  have stored: "files (fst (store_upload env0 world0 (temp_path_of env0 world0 (ustr ''.png'')) up_ok))
     (temp_path_of env0 world0 (ustr ''.png'')) = Some (ustr ''hello'')"
    by (simp add: stored_ok)
  from validate_up_ok stored ok [THEN conjunct1] ok [THEN conjunct2]
    validate_up_corrupt corrupt_outcome bad [THEN conjunct1]
  show ?thesis by (intro conjI)
qed

lemma batch_loop_acc:
  "batch_loop e w us acc = (fst (batch_loop e w us []), acc @ snd (batch_loop e w us []))"
proof (induction us arbitrary: w acc)
  case Nil
  then show ?case by simp
next
  case (Cons u us)
  obtain w1 r where step: "ocr_recognize e w u = (w1, r)"
    by (cases "ocr_recognize e w u")
  show ?case
    using Cons.IH [of w1 "acc @ [batch_entry e u r]"] Cons.IH [of w1 "[batch_entry e u r]"]
    by (simp add: step)
qed

lemma batch_loop_append:
  "batch_loop e w (us @ vs) acc =
     batch_loop e (fst (batch_loop e w us acc)) vs (snd (batch_loop e w us acc))"
proof (induction us arbitrary: w acc)
  case Nil
  then show ?case by simp
next
  case (Cons u us)
  then show ?case by (simp split: prod.splits)
qed

lemma length_batch_loop: "length (snd (batch_loop e w us acc)) = length acc + length us"
  by (induction us arbitrary: w acc) (simp_all split: prod.splits)

lemma nth_batch_loop:
  assumes "i < length us"
  shows "snd (batch_loop e w us []) ! i =
           batch_entry e (us ! i) (snd (ocr_recognize e (fst (batch_loop e w (take i us) [])) (us ! i)))"
proof -
  define wi where "wi = fst (batch_loop e w (take i us) [])"
  define acci where "acci = snd (batch_loop e w (take i us) [])"
  have len: "length acci = i"
    using assms by (simp add: acci_def length_batch_loop)
  obtain w1 r where step: "ocr_recognize e wi (us ! i) = (w1, r)"
    by (cases "ocr_recognize e wi (us ! i)")
  have "us = take i us @ us ! i # drop (Suc i) us"
    using assms by (simp add: id_take_nth_drop)
  then have "batch_loop e w us [] = batch_loop e wi (us ! i # drop (Suc i) us) acci"
    unfolding wi_def acci_def by (metis batch_loop_append)
  also have "\<dots> = batch_loop e w1 (drop (Suc i) us) (acci @ [batch_entry e (us ! i) r])"
    by (simp add: step)
  finally have "snd (batch_loop e w us []) =
      (acci @ [batch_entry e (us ! i) r]) @ snd (batch_loop e w1 (drop (Suc i) us) [])"
    using batch_loop_acc [of e w1 "drop (Suc i) us" "acci @ [batch_entry e (us ! i) r]"]
    by simp
  then have "snd (batch_loop e w us []) ! i = batch_entry e (us ! i) r"
    using len by (simp add: nth_append)
  then show ?thesis
    using step by (simp add: wi_def)
qed

lemma batch_entry_cases:
  "item_filename (batch_entry e u r) = filename u"
  "batch_entry e u (Inr d) =
     \<lparr>item_filename = filename u, item_success = True, item_data = Some d, item_error = None\<rparr>"
  "\<not> item_success (batch_entry e u (Inl x))"
  "item_data (batch_entry e u (Inl x)) = None"
  "\<exists>s. item_error (batch_entry e u (Inl x)) = Some s"
  by (simp_all add: batch_entry_def split: sum.splits exn.splits)


text \<open>
  Claim C5. The batch endpoint answers with \<open>total\<close> the number of uploaded files
  and one entry per file, in order. The entry of file \<open>i\<close> is built from what
  \<open>ocr_recognize\<close> returns or raises for that file, run in the world that the files
  before it left: a returned response gives \<open>success: true\<close> with the response as
  \<open>data\<close>, a raised exception gives \<open>success: false\<close> with an error string, and
  the loop goes on in both cases. \<open>processed\<close> counts the entries with
  \<open>success: true\<close>.
\<close>

theorem batch_isolates_failures:
  assumes "ocr_batch e w uploads = (w', resp)"
  shows "batch_success resp \<and> total resp = length uploads \<and>
         length (batch_results resp) = length uploads \<and>
         processed resp = length (filter item_success (batch_results resp)) \<and>
         (\<forall>i < length uploads.
            batch_results resp ! i =
              batch_entry e (uploads ! i)
                (snd (ocr_recognize e (fst (batch_loop e w (take i uploads) [])) (uploads ! i))) \<and>
            item_filename (batch_results resp ! i) = filename (uploads ! i) \<and>
            (case snd (ocr_recognize e (fst (batch_loop e w (take i uploads) [])) (uploads ! i)) of
               Inr d \<Rightarrow>
                 item_success (batch_results resp ! i) \<and>
                 item_data (batch_results resp ! i) = Some d \<and>
                 item_error (batch_results resp ! i) = None
             | Inl x \<Rightarrow>
                 \<not> item_success (batch_results resp ! i) \<and>
                 item_data (batch_results resp ! i) = None \<and>
                 (\<exists>s. item_error (batch_results resp ! i) = Some s)))"
proof -
  from assms have resp: "resp =
      \<lparr>batch_success = True, total = length uploads,
       processed = length (filter item_success (snd (batch_loop e w uploads []))),
       batch_results = snd (batch_loop e w uploads []), batch_timestamp = now_iso e\<rparr>"
    by (auto simp: ocr_batch_def split: prod.splits)
  have entries: "batch_results resp ! i =
      batch_entry e (uploads ! i)
        (snd (ocr_recognize e (fst (batch_loop e w (take i uploads) [])) (uploads ! i)))"
    if "i < length uploads" for i
    using nth_batch_loop [OF that] by (simp add: resp)
  have shape: "item_filename (batch_results resp ! i) = filename (uploads ! i) \<and>
      (case snd (ocr_recognize e (fst (batch_loop e w (take i uploads) [])) (uploads ! i)) of
         Inr d \<Rightarrow>
           item_success (batch_results resp ! i) \<and>
           item_data (batch_results resp ! i) = Some d \<and>
           item_error (batch_results resp ! i) = None
       | Inl x \<Rightarrow>
           \<not> item_success (batch_results resp ! i) \<and>
           item_data (batch_results resp ! i) = None \<and>
           (\<exists>s. item_error (batch_results resp ! i) = Some s))"
    if "i < length uploads" for i
    unfolding entries [OF that]
    by (simp add: batch_entry_cases split: sum.splits)
  have "batch_success resp" "total resp = length uploads"
    "length (batch_results resp) = length uploads"
    "processed resp = length (filter item_success (batch_results resp))"
    by (simp_all add: resp length_batch_loop)
  with entries shape show ?thesis by blast
qed


lemma corrupt_outcome_any:
  "snd (ocr_recognize env0 w up_corrupt) =
     Inl (HTTPException 500 (msg_ocr_failed @ ustr ''cannot read image''))"
  by (simp add: ocr_recognize_def validate_up_corrupt recognize_body_def store_upload_def
      run_adapter_def png_not_pdf process_image_ocr_def Let_def)
     (simp add: env0_def up_corrupt_def ustr_def)

lemma ok_outcome: "snd (ocr_recognize env0 w up_ok) = Inr ok_response"
  by (simp add: ocr_recognize_def validate_up_ok recognize_body_def store_upload_def
      run_adapter_def png_not_pdf process_image_ocr_def Let_def)
     (simp add: env0_def up_ok_def ustr_def ok_response_def items_of_res_def collect_items_def
        make_item_def)

lemma batch_example_results:
  "batch_results (snd (ocr_batch env0 world0 [up_ok, up_corrupt, up_ok])) =
     [\<lparr>item_filename = ustr ''scan.png'', item_success = True,
       item_data = Some ok_response, item_error = None\<rparr>,
      \<lparr>item_filename = ustr ''bad.png'', item_success = False, item_data = None,
       item_error = Some (msg_ocr_failed @ ustr ''cannot read image'')\<rparr>,
      \<lparr>item_filename = ustr ''scan.png'', item_success = True,
       item_data = Some ok_response, item_error = None\<rparr>]"
  by (simp add: ocr_batch_def case_prod_unfold ok_outcome corrupt_outcome_any batch_entry_def)
     (simp add: up_ok_def up_corrupt_def)

theorem batch_isolates_failures_witness:
  "total (snd (ocr_batch env0 world0 [up_ok, up_corrupt, up_ok])) = 3 \<and>
   processed (snd (ocr_batch env0 world0 [up_ok, up_corrupt, up_ok])) = 2 \<and>
   batch_results (snd (ocr_batch env0 world0 [up_ok, up_corrupt, up_ok])) =
     [\<lparr>item_filename = ustr ''scan.png'', item_success = True,
       item_data = Some ok_response, item_error = None\<rparr>,
      \<lparr>item_filename = ustr ''bad.png'', item_success = False, item_data = None,
       item_error = Some (msg_ocr_failed @ ustr ''cannot read image'')\<rparr>,
      \<lparr>item_filename = ustr ''scan.png'', item_success = True,
       item_data = Some ok_response, item_error = None\<rparr>]"
proof -
  note h = batch_isolates_failures [OF surjective_pairing,
      of env0 world0 "[up_ok, up_corrupt, up_ok]"]
  from h have t: "total (snd (ocr_batch env0 world0 [up_ok, up_corrupt, up_ok])) = 3"
    by simp
  from h have "processed (snd (ocr_batch env0 world0 [up_ok, up_corrupt, up_ok])) =
      length (filter item_success
        (batch_results (snd (ocr_batch env0 world0 [up_ok, up_corrupt, up_ok]))))"
    by blast
  then have p: "processed (snd (ocr_batch env0 world0 [up_ok, up_corrupt, up_ok])) = 2"
    by (simp add: batch_example_results)
  from t p batch_example_results show ?thesis by (intro conjI)
qed

section \<open>Rejected uploads in a batch\<close>

lemma ok_world:
  "engine_runs (fst (ocr_recognize env0 w up_ok)) = Suc (engine_runs w)"
  by (simp add: ocr_recognize_def validate_up_ok recognize_body_def store_upload_def
      run_adapter_def png_not_pdf process_image_ocr_def Let_def cleanup_def)
     (simp add: env0_def up_ok_def ustr_def)

lemma exe_step:
  "ocr_recognize env0 w up_exe = (w, Inl (HTTPException 400 (msg_unsupported env0 (ustr ''.exe''))))"
  by (rule ocr_recognize_rejects [OF validate_photo_exe])

lemma batch_exe_ok:
  "ocr_batch env0 world0 [up_exe, up_ok] =
     (fst (ocr_recognize env0 world0 up_ok),
      \<lparr>batch_success = True, total = 2, processed = 1,
       batch_results =
         [\<lparr>item_filename = ustr ''photo.exe'', item_success = False, item_data = None,
           item_error = Some (msg_unsupported env0 (ustr ''.exe''))\<rparr>,
          \<lparr>item_filename = ustr ''scan.png'', item_success = True,
           item_data = Some ok_response, item_error = None\<rparr>],
       batch_timestamp = now_iso env0\<rparr>)"
  by (simp add: ocr_batch_def exe_step case_prod_unfold ok_outcome batch_entry_def)
     (simp add: up_ok_def up_exe_def)

text \<open>
  The claim as it was stated speaks of the file-accepting endpoints, of which the
  batch endpoint is one. A batch with a rejected file is answered with
  \<open>success: true\<close>, not with status 400, and the engine runs on the other file; and
  the message for an empty name names no format.
\<close>

theorem batch_accepts_rejected_upload:
  "validate_file env0 (filename up_exe) = (False, msg_unsupported env0 (ustr ''.exe'')) \<and>
   batch_success (snd (ocr_batch env0 world0 [up_exe, up_ok])) \<and>
   processed (snd (ocr_batch env0 world0 [up_exe, up_ok])) = 1 \<and>
   engine_runs (fst (ocr_batch env0 world0 [up_exe, up_ok])) = 1 \<and>
   batch_results (snd (ocr_batch env0 world0 [up_exe, up_ok])) ! 0 =
     \<lparr>item_filename = ustr ''photo.exe'', item_success = False, item_data = None,
      item_error = Some (msg_unsupported env0 (ustr ''.exe''))\<rparr> \<and>
   validate_file env0 (filename up_noname) = (False, msg_no_filename) \<and>
   app_response env0 (snd (ocr_recognize env0 world0 up_noname)) =
     Inl \<lparr>response_status = 400,
          content = \<lparr>error_success = False, error = msg_no_filename,
                     error_status_code = Some 400, error_detail = None\<rparr>\<rparr>"
proof -
  have nn: "validate_file env0 (filename up_noname) = (False, msg_no_filename)"
    by (simp add: validate_file_def up_noname_def)
  have runs: "engine_runs (fst (ocr_batch env0 world0 [up_exe, up_ok])) = 1"
    by (simp add: batch_exe_ok ok_world) (simp add: world0_def)
  have resp: "app_response env0 (snd (ocr_recognize env0 world0 up_noname)) =
     Inl \<lparr>response_status = 400,
          content = \<lparr>error_success = False, error = msg_no_filename,
                     error_status_code = Some 400, error_detail = None\<rparr>\<rparr>"
    by (simp add: ocr_recognize_rejects [OF nn] app_response_def http_exception_handler_def)
  show ?thesis
    using validate_photo_exe nn runs resp by (simp add: batch_exe_ok)
qed

section \<open>Properties of the CSV output\<close>

lemma csv_special_simps:
  "csv_special COMMA" "csv_special DQUOTE" "csv_special CR" "csv_special LF"
  by (simp_all add: csv_special_def)

lemma special_distinct:
  "COMMA \<noteq> DQUOTE" "COMMA \<noteq> CR" "COMMA \<noteq> LF" "DQUOTE \<noteq> CR" "DQUOTE \<noteq> LF" "CR \<noteq> LF"
  "DQUOTE \<noteq> COMMA" "CR \<noteq> COMMA" "LF \<noteq> COMMA" "CR \<noteq> DQUOTE" "LF \<noteq> DQUOTE" "LF \<noteq> CR"
  by (simp_all add: COMMA_def DQUOTE_def CR_def LF_def)

lemma parse_unquoted_run:
  "\<forall>c \<in> set f. \<not> csv_special c \<Longrightarrow>
   csv_parse_from Unquoted fld row (f @ rest) = csv_parse_from Unquoted (fld @ f) row rest"
proof (induction f arbitrary: fld)
  case Nil
  then show ?case by simp
next
  case (Cons c f)
  then have "c \<noteq> COMMA" "c \<noteq> CR" "c \<noteq> LF" "c \<noteq> DQUOTE"
    by (auto simp: csv_special_def)
  with Cons show ?case by simp
qed

lemma csv_escape_Cons:
  "csv_escape (c # f) = (if c = DQUOTE then [DQUOTE, DQUOTE] else [c]) @ csv_escape f"
  by (simp add: csv_escape_def)

lemma parse_quoted_run:
  "csv_parse_from Quoted fld row (csv_escape f @ DQUOTE # rest) =
   csv_parse_from QuoteSeen (fld @ f) row rest"
proof (induction f arbitrary: fld)
  case Nil
  then show ?case by (simp add: csv_escape_def)
next
  case (Cons c f)
  show ?case
    using Cons.IH [of "fld @ [c]"] by (cases "c = DQUOTE") (simp_all add: csv_escape_Cons)
qed

lemma parse_field:
  assumes "t = COMMA \<or> t = CR"
  shows "csv_parse_from FieldStart [] row (csv_field f @ t # rest) =
         csv_parse_from (if t = COMMA then FieldStart else AfterCR) [] (row @ [f]) rest"
proof (cases "\<exists>c \<in> set f. csv_special c")
  case True
  then have "csv_field f = DQUOTE # csv_escape f @ [DQUOTE]"
    by (simp add: csv_field_def)
  then show ?thesis
    using assms parse_quoted_run [of "[]" row f "t # rest"] special_distinct
    by auto
next
  case False
  then have plain: "csv_field f = f" and none: "\<forall>c \<in> set f. \<not> csv_special c"
    by (simp_all add: csv_field_def)
  show ?thesis
  proof (cases f)
    case Nil
    then show ?thesis
      using assms plain special_distinct by auto
  next
    case (Cons c f')
    with none have c: "c \<noteq> COMMA" "c \<noteq> CR" "c \<noteq> LF" "c \<noteq> DQUOTE"
      and rest: "\<forall>c \<in> set f'. \<not> csv_special c"
      by (auto simp: csv_special_def)
    have "csv_parse_from FieldStart [] row (f @ t # rest) =
        csv_parse_from Unquoted [c] row (f' @ t # rest)"
      using c by (simp add: Cons)
    also have "\<dots> = csv_parse_from Unquoted f row (t # rest)"
      using parse_unquoted_run [OF rest, of "[c]" row "t # rest"] by (simp add: Cons)
    also have "\<dots> = csv_parse_from (if t = COMMA then FieldStart else AfterCR) [] (row @ [f]) rest"
      using assms special_distinct by auto
    finally show ?thesis by (simp add: plain)
  qed
qed


lemma parse_record_end:
  "csv_parse_from AfterCR [] row (LF # rest) =
     (if rest = [] then Some [row] else map_option ((#) row) (csv_parse_from FieldStart [] [] rest))"
  by simp

lemma parse_fields:
  "r \<noteq> [] \<Longrightarrow>
   csv_parse_from FieldStart [] acc (py_join [COMMA] (map csv_field r) @ CR # LF # rest) =
   csv_parse_from AfterCR [] (acc @ r) (LF # rest)"
proof (induction r arbitrary: acc)
  case Nil
  then show ?case by simp
next
  case (Cons f r)
  show ?case
  proof (cases r)
    case Nil
    then show ?thesis
      using parse_field [of CR acc f "LF # rest"] special_distinct by simp
  next
    case (Cons g r')
    have "csv_parse_from FieldStart [] acc
        (py_join [COMMA] (map csv_field (f # r)) @ CR # LF # rest) =
      csv_parse_from FieldStart [] acc
        (csv_field f @ COMMA # (py_join [COMMA] (map csv_field r) @ CR # LF # rest))"
      by (simp add: Cons)
    also have "\<dots> = csv_parse_from FieldStart [] (acc @ [f])
        (py_join [COMMA] (map csv_field r) @ CR # LF # rest)"
      using parse_field [of COMMA acc f] by simp
    also have "\<dots> = csv_parse_from AfterCR [] ((acc @ [f]) @ r) (LF # rest)"
      using Cons.IH [of "acc @ [f]"] Cons by simp
    finally show ?thesis by simp
  qed
qed

lemma parse_row:
  assumes "r \<noteq> []"
  shows "csv_parse_from FieldStart [] [] (csv_row r @ rest) =
     (if rest = [] then Some [r] else map_option ((#) r) (csv_parse_from FieldStart [] [] rest))"
proof (cases "r = [[]]")
  case True
  then show ?thesis
    using special_distinct by (simp add: csv_row_def)
next
  case False
  then show ?thesis
    using parse_fields [OF assms, of "[]" rest] by (simp add: csv_row_def)
qed

lemma csv_row_nonempty: "csv_row r \<noteq> []"
  by (simp add: csv_row_def)

lemma csv_writerows_simps:
  "csv_writerows [] = []"
  "csv_writerows (r # rows) = csv_row r @ csv_writerows rows"
  by (simp_all add: csv_writerows_def)

lemma csv_writerows_empty: "csv_writerows rows = [] \<longleftrightarrow> rows = []"
  by (cases rows) (simp_all add: csv_writerows_simps csv_row_nonempty)

lemma parse_writerows:
  "\<forall>r \<in> set rows. r \<noteq> [] \<Longrightarrow> csv_parse (csv_writerows rows) = Some rows"
proof (induction rows)
  case Nil
  then show ?case by (simp add: csv_parse_def csv_writerows_simps)
next
  case (Cons r rows)
  then have r: "r \<noteq> []" and IH: "csv_parse (csv_writerows rows) = Some rows"
    by simp_all
  show ?case
  proof (cases "rows = []")
    case True
    then show ?thesis
      using parse_row [OF r, of "[]"]
      by (simp add: csv_parse_def csv_writerows_simps csv_row_nonempty)
  next
    case False
    then have ne: "csv_writerows rows \<noteq> []"
      by (simp add: csv_writerows_empty)
    with IH have "csv_parse_from FieldStart [] [] (csv_writerows rows) = Some rows"
      by (simp add: csv_parse_def)
    then show ?thesis
      using parse_row [OF r, of "csv_writerows rows"] ne
      by (simp add: csv_parse_def csv_writerows_simps csv_row_nonempty)
  qed
qed


lemma foldl_max_ge: "m \<le> foldl max (m::nat) xs"
proof (induction xs arbitrary: m)
  case Nil
  then show ?case by simp
next
  case (Cons y ys)
  have "m \<le> max m y" by simp
  also have "\<dots> \<le> foldl max (max m y) ys" by (rule Cons.IH)
  finally show ?case by simp
qed

lemma foldl_max_member: "x \<in> set xs \<Longrightarrow> x \<le> foldl max (m::nat) xs"
proof (induction xs arbitrary: m)
  case Nil
  then show ?case by simp
next
  case (Cons y ys)
  show ?case
  proof (cases "x = y")
    case True
    have "y \<le> max m y" by simp
    also have "\<dots> \<le> foldl max (max m y) ys" by (rule foldl_max_ge)
    finally show ?thesis by (simp add: True)
  next
    case False
    with Cons.prems have "x \<in> set ys" by simp
    then show ?thesis using Cons.IH [of "max m y"] by simp
  qed
qed

lemma pad_row_length: "length row \<le> mc \<Longrightarrow> length (pad_row mc row) = mc"
  by (simp add: pad_row_def)

lemma pad_row_nonempty: "row \<noteq> [] \<Longrightarrow> pad_row mc row \<noteq> []"
  by (simp add: pad_row_def)

lemma table_grid_rows:
  assumes "table_grid rs d = Inr (td, mc)"
  shows "\<forall>row \<in> set td. row \<noteq> [] \<and> length row \<le> mc"
proof (cases "collect_lines rs = []")
  case True
  with assms show ?thesis by (simp add: table_grid_cases)
next
  case False
  with assms have td: "td = filter (\<lambda>r. r \<noteq> [])
      (map (line_cells (resolve_delimiter d (collect_lines rs))) (collect_lines rs))"
    and mc: "mc = foldl max 0 (map length td)"
    by (auto simp: table_grid_cases split: if_splits)
  show ?thesis
  proof
    fix row assume row: "row \<in> set td"
    then have "row \<noteq> []" using td by auto
    moreover from row have "length row \<le> mc"
      unfolding mc by (intro foldl_max_member) simp
    ultimately show "row \<noteq> [] \<and> length row \<le> mc" ..
  qed
qed

text \<open>
  Claim C3. For a conversion with the delimiter \<open>tab\<close>, reading the CSV output back
  by the standard rules gives exactly the padded grid that the conversion built: the
  rows of the grid, each filled with empty cells up to the column count. Every row of
  that grid has the column count as its length, and the grid has as many rows as the
  conversion reports. This holds for every input, and so for the inputs in which no
  cell is empty after trimming.
\<close>

theorem csv_round_trip:
  assumes "convert_to_table rs (ustr ''tab'') = Inr (csv, md, n, m)"
    and "table_grid rs (ustr ''tab'') = Inr (td, mc)"
  shows "csv_parse csv = Some (pad_rows mc td) \<and>
         (\<forall>row \<in> set (pad_rows mc td). length row = mc) \<and>
         length (pad_rows mc td) = n"
proof -
  note rows = table_grid_rows [OF assms(2)]
  have padded: "\<forall>row \<in> set (pad_rows mc td). row \<noteq> []"
    using rows by (auto simp: pad_rows_def pad_row_nonempty)
  have rect: "\<forall>row \<in> set (pad_rows mc td). length row = mc"
    using rows by (auto simp: pad_rows_def pad_row_length)
  have out: "csv = csv_writerows (pad_rows mc td) \<and> n = length (pad_rows mc td)"
    using assms by (auto simp: convert_via_grid pad_rows_def csv_writerows_simps split: if_splits)
  with parse_writerows [OF padded] rect show ?thesis by simp
qed


lemma quoted_cells:
  "line_cells (ustr ''tab'') (ustr ''Name'' @ TAB # ustr ''Note'') = [ustr ''Name'', ustr ''Note'']"
  "line_cells (ustr ''tab'') (ustr ''Bob, Jr.'' @ TAB # ustr ''say '' @ DQUOTE # ustr ''hi'' @ [DQUOTE]) =
     [ustr ''Bob, Jr.'', ustr ''say '' @ DQUOTE # ustr ''hi'' @ [DQUOTE]]"
  "line_cells (ustr ''tab'') (ustr ''solo'') = [ustr ''solo'']"
  by (simp_all add: cell_eval DQUOTE_def)

lemma quoted_collect: "collect_lines (map item quoted_lines) = quoted_lines"
  by (simp add: collect_lines_def item_def quoted_lines_def ustr_def TAB_def)

lemma quoted_table_grid:
  "table_grid (map item quoted_lines) (ustr ''tab'') = Inr (quoted_grid, 2)"
proof -
  have "ustr ''tab'' \<noteq> []" by (simp add: ustr_def)
  moreover have "quoted_lines \<noteq> []" by (simp add: quoted_lines_def)
  ultimately show ?thesis
    unfolding table_grid_cases quoted_collect resolve_named
    by (simp add: quoted_lines_def quoted_grid_def quoted_cells)
qed

lemma quoted_convert:
  "convert_to_table (map item quoted_lines) (ustr ''tab'') =
     Inr (csv_writerows (pad_rows 2 quoted_grid), md_table (pad_rows 2 quoted_grid) 2, 3, 2)"
  by (simp add: convert_via_grid quoted_table_grid) (simp add: quoted_grid_def)

lemma quoted_padded:
  "pad_rows 2 quoted_grid =
     [[ustr ''Name'', ustr ''Note''],
      [ustr ''Bob, Jr.'', ustr ''say '' @ DQUOTE # ustr ''hi'' @ [DQUOTE]],
      [ustr ''solo'', []]]"
  by (simp add: quoted_grid_def pad_rows_def pad_row_def ustr_def)

lemma quoted_csv:
  "csv_writerows (pad_rows 2 quoted_grid) =
     ustr ''Name,Note'' @ [CR, LF] @
     DQUOTE # ustr ''Bob, Jr.'' @ [DQUOTE, COMMA, DQUOTE] @ ustr ''say '' @ [DQUOTE, DQUOTE] @
       ustr ''hi'' @ [DQUOTE, DQUOTE, DQUOTE] @ [CR, LF] @
     ustr ''solo,'' @ [CR, LF]"
  unfolding quoted_padded
  by (simp add: csv_writerows_def csv_row_def csv_field_def csv_special_def csv_escape_def
      ustr_def DQUOTE_def COMMA_def CR_def LF_def)

theorem csv_round_trip_witness:
  "convert_to_table (map item quoted_lines) (ustr ''tab'') =
     Inr (csv_writerows (pad_rows 2 quoted_grid), md_table (pad_rows 2 quoted_grid) 2, 3, 2) \<and>
   table_grid (map item quoted_lines) (ustr ''tab'') = Inr (quoted_grid, 2) \<and>
   csv_writerows (pad_rows 2 quoted_grid) =
     ustr ''Name,Note'' @ [CR, LF] @
     DQUOTE # ustr ''Bob, Jr.'' @ [DQUOTE, COMMA, DQUOTE] @ ustr ''say '' @ [DQUOTE, DQUOTE] @
       ustr ''hi'' @ [DQUOTE, DQUOTE, DQUOTE] @ [CR, LF] @
     ustr ''solo,'' @ [CR, LF] \<and>
   csv_parse (csv_writerows (pad_rows 2 quoted_grid)) = Some (pad_rows 2 quoted_grid) \<and>
   pad_rows 2 quoted_grid =
     [[ustr ''Name'', ustr ''Note''],
      [ustr ''Bob, Jr.'', ustr ''say '' @ DQUOTE # ustr ''hi'' @ [DQUOTE]],
      [ustr ''solo'', []]]"
proof -
  from csv_round_trip [OF quoted_convert quoted_table_grid]
  have "csv_parse (csv_writerows (pad_rows 2 quoted_grid)) = Some (pad_rows 2 quoted_grid)"
    by (rule conjunct1)
  with quoted_convert quoted_table_grid quoted_csv quoted_padded
  show ?thesis by (intro conjI)
qed

section \<open>Properties of the Markdown output\<close>

lemma foldl_max_le: "\<forall>x \<in> set xs. x \<le> c \<Longrightarrow> foldl max (m::nat) xs \<le> max m c"
proof (induction xs arbitrary: m)
  case Nil
  then show ?case by simp
next
  case (Cons y ys)
  then have "foldl max (max m y) ys \<le> max (max m y) c" by simp
  moreover from Cons.prems have "y \<le> c" by simp
  then have "max (max m y) c = max m c" by (simp add: max_def)
  ultimately show ?case by simp
qed

lemma grid_width_uniform:
  assumes "rows \<noteq> []" and "\<forall>row \<in> set rows. length row = c"
  shows "grid_width rows = c"
proof -
  from assms(1) obtain r where r: "r \<in> set rows" by (cases rows) auto
  with assms(2) have "c \<in> set (map length rows)" by force
  then have "c \<le> grid_width rows"
    unfolding grid_width_def by (rule foldl_max_member)
  moreover have "grid_width rows \<le> max 0 c"
    unfolding grid_width_def using assms(2) by (intro foldl_max_le) simp
  ultimately show ?thesis by simp
qed

lemma pad_row_idem: "pad_row mc (pad_row mc row) = pad_row mc row"
  by (simp add: pad_row_def)

lemma pad_rows_idem: "pad_rows mc (pad_rows mc rows) = pad_rows mc rows"
  by (simp add: pad_rows_def pad_row_idem)

lemma table_grid_width:
  assumes "table_grid rs d = Inr (td, mc)"
  shows "grid_width (pad_rows mc td) = mc"
proof (cases "td = []")
  case True
  with assms have "mc = 0"
    by (auto simp: table_grid_cases split: if_splits)
  with True show ?thesis by (simp add: grid_width_def pad_rows_def)
next
  case False
  have "\<forall>row \<in> set (pad_rows mc td). length row = mc"
    using table_grid_rows [OF assms] by (auto simp: pad_rows_def pad_row_length)
  moreover from False have "pad_rows mc td \<noteq> []" by (simp add: pad_rows_def)
  ultimately show ?thesis by (rule grid_width_uniform [rotated])
qed

lemma split_from_Nil: "split_from sep cur [] = [cur]"
  by (simp add: split_from.simps)

lemma split_from_TAB: "split_from [TAB] cur (TAB # s) = cur # split_from [TAB] [] s"
  by (subst split_from.simps) simp

lemma split_from_other:
  "c \<noteq> TAB \<Longrightarrow> split_from [TAB] cur (c # s) = split_from [TAB] (cur @ [c]) s"
  by (subst split_from.simps) simp

lemma split_from_run:
  "TAB \<notin> set c \<Longrightarrow> split_from [TAB] cur (c @ s) = split_from [TAB] (cur @ c) s"
proof (induction c arbitrary: cur)
  case Nil
  then show ?case by simp
next
  case (Cons x c)
  then show ?case by (simp add: split_from_other)
qed

lemma split_join_TAB:
  "xs \<noteq> [] \<Longrightarrow> \<forall>c \<in> set xs. TAB \<notin> set c \<Longrightarrow>
   split_from [TAB] [] (py_join [TAB] xs) = xs"
proof (induction "[TAB]" xs rule: py_join.induct)
  case 1
  then show ?case by simp
next
  case (2 x)
  then show ?case
    using split_from_run [of x "[]" "[]"] by (simp add: split_from_Nil)
next
  case (3 x y ys)
  then show ?case
    using split_from_run [of x "[]" "TAB # py_join [TAB] (y # ys)"]
    by (simp add: split_from_TAB)
qed

lemma split_from_no_TAB:
  "TAB \<notin> set cur \<Longrightarrow> p \<in> set (split_from [TAB] cur s) \<Longrightarrow> TAB \<notin> set p"
proof (induction s arbitrary: cur)
  case Nil
  then show ?case by (simp add: split_from_Nil)
next
  case (Cons c s)
  show ?case
  proof (cases "c = TAB")
    case True
    with Cons.prems have "p = cur \<or> p \<in> set (split_from [TAB] [] s)"
      by (simp add: split_from_TAB)
    then show ?thesis
      using Cons.IH [of "[]"] Cons.prems(1) by auto
  next
    case False
    with Cons.prems have "p \<in> set (split_from [TAB] (cur @ [c]) s)"
      by (simp add: split_from_other)
    then show ?thesis
      using Cons.IH [of "cur @ [c]"] Cons.prems(1) False by simp
  qed
qed

lemma set_py_strip: "set (py_strip s) \<subseteq> set s"
proof -
  have "set (py_strip s) = set (dropWhile isspace (rev (dropWhile isspace s)))"
    by (simp add: py_strip_def)
  also have "\<dots> \<subseteq> set (rev (dropWhile isspace s))"
    by (auto dest: set_dropWhileD)
  also have "\<dots> \<subseteq> set s"
    by (auto dest: set_dropWhileD)
  finally show ?thesis .
qed

lemma py_strip_fixed:
  assumes "t = [] \<or> (\<not> isspace (hd t) \<and> \<not> isspace (last t))"
  shows "py_strip t = t"
proof (cases "t = []")
  case True
  then show ?thesis by (simp add: py_strip_def)
next
  case False
  with assms have h: "\<not> isspace (hd t)" and l: "\<not> isspace (last t)" by simp_all
  from False h have 1: "dropWhile isspace t = t"
    by (simp add: dropWhile_eq_self_iff)
  from False l have 2: "dropWhile isspace (rev t) = rev t"
    by (simp add: dropWhile_eq_self_iff hd_rev)
  show ?thesis by (simp add: py_strip_def 1 2)
qed

lemma py_strip_ends:
  "py_strip s = [] \<or> (\<not> isspace (hd (py_strip s)) \<and> \<not> isspace (last (py_strip s)))"
proof (cases "py_strip s = []")
  case True
  then show ?thesis ..
next
  case False
  define u where "u = dropWhile isspace s"
  define v where "v = dropWhile isspace (rev u)"
  have t: "py_strip s = rev v" by (simp add: py_strip_def u_def v_def)
  with False have v: "v \<noteq> []" by simp
  then have "\<not> isspace (hd v)" unfolding v_def by (rule hd_dropWhile)
  then have last: "\<not> isspace (last (py_strip s))"
    using v by (simp add: t last_rev)
  have "rev u = takeWhile isspace (rev u) @ v"
    by (simp add: v_def)
  then have "last (rev u) = last v"
    using v by (metis last_appendR)
  moreover from v have u: "u \<noteq> []" unfolding v_def by auto
  ultimately have "last v = hd u" by (simp add: last_rev)
  moreover from u have "\<not> isspace (hd u)" unfolding u_def by (rule hd_dropWhile)
  ultimately have "\<not> isspace (hd (py_strip s))"
    using v by (simp add: t hd_rev)
  with last show ?thesis by simp
qed

lemma py_strip_idem: "py_strip (py_strip s) = py_strip s"
  by (rule py_strip_fixed) (rule py_strip_ends)


lemma line_cells_tab: "line_cells (ustr ''tab'') l = clean_cells (split_from [TAB] [] l)"
  using delimiter_names_distinct by (simp add: line_cells_def split_line_def py_split_def)

lemma line_cells_tab_clean:
  assumes "c \<in> set (line_cells (ustr ''tab'') l)"
  shows "c \<noteq> [] \<and> py_strip c = c \<and> TAB \<notin> set c"
proof -
  from assms obtain p where p: "p \<in> set (split_from [TAB] [] l)" and c: "c = py_strip p"
    and ne: "py_strip p \<noteq> []"
    by (auto simp: line_cells_tab clean_cells_def)
  from p have "TAB \<notin> set p" by (rule split_from_no_TAB [rotated]) simp
  with set_py_strip [of p] have "TAB \<notin> set c" unfolding c by auto
  with ne show ?thesis by (simp add: c py_strip_idem)
qed

lemma clean_padded:
  "\<forall>c \<in> set row. c \<noteq> [] \<and> py_strip c = c \<Longrightarrow> clean_cells (row @ replicate k []) = row"
proof -
  assume a: "\<forall>c \<in> set row. c \<noteq> [] \<and> py_strip c = c"
  have e: "py_strip [] = []" by (simp add: py_strip_def)
  have "filter (\<lambda>c. py_strip c \<noteq> []) (row @ replicate k []) = row"
    using a by (simp add: e filter_id_conv)
  then show ?thesis
    using a by (simp add: clean_cells_def map_idI)
qed

lemma line_cells_join:
  assumes "row \<noteq> []" and "\<forall>c \<in> set row. c \<noteq> [] \<and> py_strip c = c \<and> TAB \<notin> set c"
  shows "line_cells (ustr ''tab'') (py_join [TAB] (pad_row mc row)) = row"
proof -
  have "pad_row mc row \<noteq> []" using assms(1) by (simp add: pad_row_def)
  moreover have "\<forall>c \<in> set (pad_row mc row). TAB \<notin> set c"
    using assms(2) by (auto simp: pad_row_def)
  ultimately have "split_from [TAB] [] (py_join [TAB] (pad_row mc row)) = pad_row mc row"
    by (rule split_join_TAB)
  then show ?thesis
    using assms(2) by (simp add: line_cells_tab pad_row_def clean_padded)
qed

lemma py_join_nonempty: "xs \<noteq> [] \<Longrightarrow> hd xs \<noteq> [] \<Longrightarrow> py_join sep xs \<noteq> []"
  by (induction sep xs rule: py_join.induct) simp_all

lemma table_grid_again:
  assumes "table_grid rs (ustr ''tab'') = Inr (td, mc)"
  shows "table_grid (map (\<lambda>row. item (py_join [TAB] row)) (pad_rows mc td)) (ustr ''tab'') =
           Inr (td, mc)"
proof (cases "td = []")
  case True
  with assms have "mc = 0"
    by (auto simp: table_grid_cases split: if_splits)
  with True show ?thesis
    by (simp add: table_grid_cases pad_rows_def collect_lines_def)
next
  case False
  from assms False have lines: "collect_lines rs \<noteq> []"
    and td: "td = filter (\<lambda>r. r \<noteq> []) (map (line_cells (ustr ''tab'')) (collect_lines rs))"
    and mc: "mc = foldl max 0 (map length td)"
    by (auto simp: table_grid_cases resolve_named split: if_splits)
  have clean: "row \<noteq> [] \<and> (\<forall>c \<in> set row. c \<noteq> [] \<and> py_strip c = c \<and> TAB \<notin> set c)"
    if "row \<in> set td" for row
  proof -
    from that td obtain l where "row = line_cells (ustr ''tab'') l" and "row \<noteq> []"
      by auto
    then show ?thesis using line_cells_tab_clean by blast
  qed
  define again where "again = map (\<lambda>row. py_join [TAB] (pad_row mc row)) td"
  have texts: "\<forall>l \<in> set again. l \<noteq> []"
  proof
    fix l assume "l \<in> set again"
    then obtain row where row: "row \<in> set td" and l: "l = py_join [TAB] (pad_row mc row)"
      by (auto simp: again_def)
    from clean [OF row] have "row \<noteq> []" and "hd row \<noteq> []" by (simp_all add: hd_in_set)
    then have "pad_row mc row \<noteq> []" and "hd (pad_row mc row) \<noteq> []"
      by (simp_all add: pad_row_def)
    then show "l \<noteq> []" unfolding l by (rule py_join_nonempty)
  qed
  have collect: "collect_lines (map (\<lambda>row. item (py_join [TAB] row)) (pad_rows mc td)) = again"
    using texts
    by (simp add: collect_lines_def pad_rows_def again_def item_def filter_map o_def filter_id_conv)
  have cells: "map (line_cells (ustr ''tab'')) again = td"
    unfolding again_def using clean by (simp add: line_cells_join map_idI)
  have ne: "again \<noteq> []" using False by (simp add: again_def)
  have keep: "filter (\<lambda>r. r \<noteq> []) td = td"
    using clean by (simp add: filter_id_conv)
  show ?thesis
    unfolding table_grid_cases collect resolve_named cells keep
    using ne mc by (simp add: ustr_def)
qed

text \<open>
  Claim C8. Let the grid be the padded grid that a conversion has built. Converting
  this grid again, which computes the column count from its rows, pads the rows to
  it and makes the Markdown table, gives the Markdown table of the first conversion:
  the column count found is the one of the first conversion, the padding changes
  nothing, and so a further conversion gives the same table once more. When the grid
  has rows, the table is the first row of the grid as the header, then a separator
  row with one \<open>---\<close> for each column, then the other rows, each written between
  pipes, the lines joined by line feeds. For the delimiter \<open>tab\<close> the same holds
  through \<open>convert_to_table\<close> itself: given the rows of the grid as lines, their
  cells joined by tabs, it returns the CSV text, the Markdown table and the counts
  that it returned the first time.
\<close>

theorem markdown_idempotent:
  assumes "convert_to_table rs d = Inr (csv, md, n, m)"
    and "table_grid rs d = Inr (td, mc)"
    and "g = pad_rows mc td"
  shows "grid_to_markdown g = md \<and>
         pad_rows (grid_width g) g = g \<and> grid_width g = mc \<and>
         grid_to_markdown (pad_rows (grid_width g) g) = md \<and>
         (td \<noteq> [] \<longrightarrow>
            m = mc \<and>
            md = py_join [LF]
                   (md_row (hd g) # md_row (replicate m (ustr ''---'')) # map md_row (tl g))) \<and>
         (d = ustr ''tab'' \<longrightarrow>
            convert_to_table (map (\<lambda>row. item (py_join [TAB] row)) g) (ustr ''tab'') =
              Inr (csv, md, n, m))"
proof -
  have w: "grid_width g = mc"
    unfolding assms(3) by (rule table_grid_width [OF assms(2)])
  have p: "pad_rows (grid_width g) g = g"
    unfolding w unfolding assms(3) by (rule pad_rows_idem)
  have md: "md = md_table g mc"
    using assms(1) unfolding convert_via_grid assms(2) assms(3)
    by (auto simp: md_table_def md_lines_def pad_rows_def split: if_splits)
  have again: "grid_to_markdown g = md"
    unfolding grid_to_markdown_def p unfolding w md ..
  have shape: "m = mc \<and>
      md = py_join [LF] (md_row (hd g) # md_row (replicate m (ustr ''---'')) # map md_row (tl g))"
    if "td \<noteq> []"
  proof -
    from that have "g \<noteq> []" by (simp add: assms(3) pad_rows_def)
    then obtain h t where g: "g = h # t" by (cases g) auto
    from that assms have "m = mc" by (simp add: convert_via_grid)
    then show ?thesis
      by (simp add: md md_table_def md_lines_def g)
  qed
  have refeed: "convert_to_table (map (\<lambda>row. item (py_join [TAB] row)) g) (ustr ''tab'') =
      Inr (csv, md, n, m)"
    if d: "d = ustr ''tab''"
  proof -
    from assms(2) have "table_grid rs (ustr ''tab'') = Inr (td, mc)"
      unfolding d .
    then have "table_grid (map (\<lambda>row. item (py_join [TAB] row)) g) (ustr ''tab'') =
        table_grid rs (ustr ''tab'')"
      unfolding assms(3) by (simp add: table_grid_again)
    then have "convert_to_table (map (\<lambda>row. item (py_join [TAB] row)) g) (ustr ''tab'') =
        convert_to_table rs (ustr ''tab'')"
      unfolding convert_via_grid by (rule arg_cong)
    with assms(1) show ?thesis unfolding d by simp
  qed
  from w p again shape refeed show ?thesis by simp
qed

lemma quoted_markdown:
  "md_table (pad_rows 2 quoted_grid) 2 =
     ustr ''| Name | Note |'' @ LF #
     ustr ''| --- | --- |'' @ LF #
     ustr ''| Bob, Jr. | say '' @ DQUOTE # ustr ''hi'' @ DQUOTE # ustr '' |'' @ LF #
     ustr ''| solo |  |''"
  unfolding quoted_padded
  by (simp add: md_table_def md_lines_def md_row_def ustr_def DQUOTE_def LF_def
      numeral_2_eq_2)

lemma quoted_grid_nonempty: "quoted_grid \<noteq> []"
  by (simp add: quoted_grid_def)

theorem markdown_idempotent_witness:
  "convert_to_table (map item quoted_lines) (ustr ''tab'') =
     Inr (csv_writerows (pad_rows 2 quoted_grid), md_table (pad_rows 2 quoted_grid) 2, 3, 2) \<and>
   table_grid (map item quoted_lines) (ustr ''tab'') = Inr (quoted_grid, 2) \<and>
   grid_to_markdown (pad_rows 2 quoted_grid) = md_table (pad_rows 2 quoted_grid) 2 \<and>
   grid_width (pad_rows 2 quoted_grid) = 2 \<and>
   md_table (pad_rows 2 quoted_grid) 2 =
     py_join [LF]
       (md_row (hd (pad_rows 2 quoted_grid)) # md_row (replicate 2 (ustr ''---'')) #
        map md_row (tl (pad_rows 2 quoted_grid))) \<and>
   convert_to_table (map (\<lambda>row. item (py_join [TAB] row)) (pad_rows 2 quoted_grid)) (ustr ''tab'') =
     Inr (csv_writerows (pad_rows 2 quoted_grid), md_table (pad_rows 2 quoted_grid) 2, 3, 2) \<and>
   md_table (pad_rows 2 quoted_grid) 2 =
     ustr ''| Name | Note |'' @ LF #
     ustr ''| --- | --- |'' @ LF #
     ustr ''| Bob, Jr. | say '' @ DQUOTE # ustr ''hi'' @ DQUOTE # ustr '' |'' @ LF #
     ustr ''| solo |  |''"
proof -
  note t = markdown_idempotent [OF quoted_convert quoted_table_grid refl]
  from t have a: "grid_to_markdown (pad_rows 2 quoted_grid) = md_table (pad_rows 2 quoted_grid) 2"
    by (rule conjunct1)
  from t have b: "grid_width (pad_rows 2 quoted_grid) = 2"
    by (rule conjunct1 [OF conjunct2 [OF conjunct2]])
  from t have "quoted_grid \<noteq> [] \<longrightarrow>
      (2::nat) = 2 \<and>
      md_table (pad_rows 2 quoted_grid) 2 =
        py_join [LF]
          (md_row (hd (pad_rows 2 quoted_grid)) # md_row (replicate 2 (ustr ''---'')) #
           map md_row (tl (pad_rows 2 quoted_grid)))"
    by (rule conjunct1 [OF conjunct2 [OF conjunct2 [OF conjunct2 [OF conjunct2]]]])
  with quoted_grid_nonempty have c: "md_table (pad_rows 2 quoted_grid) 2 =
        py_join [LF]
          (md_row (hd (pad_rows 2 quoted_grid)) # md_row (replicate 2 (ustr ''---'')) #
           map md_row (tl (pad_rows 2 quoted_grid)))"
    by blast
  from t have "ustr ''tab'' = ustr ''tab'' \<longrightarrow>
      convert_to_table (map (\<lambda>row. item (py_join [TAB] row)) (pad_rows 2 quoted_grid)) (ustr ''tab'') =
        Inr (csv_writerows (pad_rows 2 quoted_grid), md_table (pad_rows 2 quoted_grid) 2, 3, 2)"
    by (rule conjunct2 [OF conjunct2 [OF conjunct2 [OF conjunct2 [OF conjunct2]]]])
  then have d: "convert_to_table (map (\<lambda>row. item (py_join [TAB] row)) (pad_rows 2 quoted_grid)) (ustr ''tab'') =
        Inr (csv_writerows (pad_rows 2 quoted_grid), md_table (pad_rows 2 quoted_grid) 2, 3, 2)"
    by blast
  from quoted_convert quoted_table_grid a b c d quoted_markdown
  show ?thesis by (intro conjI)
qed

end
